theory Spec2Isabelle
  imports Complex_Main "HOL-Library.Sublist"
begin

section \<open>Strings, paths and exceptions\<close>

text \<open>
  Python values are modelled as follows: \<open>str\<close> is \<open>string\<close> (the emoji in the
  user-facing messages are written as their UTF-8 bytes), \<open>float\<close> and \<open>datetime\<close>
  values are \<open>real\<close> numbers supplied by the environment, \<open>Optional[t]\<close> is
  \<open>t option\<close>, a \<open>dict\<close> keyed by strings is a map, and every \<open>raise\<close> is the
  \<open>Inl\<close> branch of a sum.
\<close>

fun str_nat :: "nat \<Rightarrow> string" where
  "str_nat n = (if n < 10 then [''0123456789'' ! n]
                else str_nat (n div 10) @ [''0123456789'' ! (n mod 10)])"

declare str_nat.simps [simp del]

text \<open>\<open>str(i)\<close> of a Python integer.\<close>

definition str_int :: "int \<Rightarrow> string" where
  "str_int i = (if i < 0 then ''-'' @ str_nat (nat (- i)) else str_nat (nat i))"

text \<open>\<open>sub in s\<close> on Python strings.\<close>

fun str_contains :: "string \<Rightarrow> string \<Rightarrow> bool" where
  "str_contains sub [] = (sub = [])"
| "str_contains sub (c # cs) = (prefix sub (c # cs) \<or> str_contains sub cs)"

text \<open>\<open>os.path.join\<close> of two components (POSIX): an absolute second component wins.\<close>

definition path_join :: "string \<Rightarrow> string \<Rightarrow> string" where
  "path_join a b =
     (if prefix ''/'' b then b
      else if a = [] \<or> suffix ''/'' a then a @ b
      else a @ ''/'' @ b)"

text \<open>
  The exceptions of \<^verbatim>\<open>app/core/exceptions.py\<close>, FastAPI's \<open>HTTPException\<close>, the
  interpreter's own \<open>KeyError\<close>, \<open>IndexError\<close>, \<open>ZeroDivisionError\<close>,
  \<open>AttributeError\<close> and \<open>TypeError\<close>, and \<open>Raised msg\<close> for any exception that
  an external library or service raises, with \<open>str(e) = msg\<close>.
\<close>

datatype exn =
    DocumentNotFoundError string
  | ProcessingError string string
  | InvalidFileError string
  | HTTPException nat string
  | KeyError string
  | IndexError
  | ZeroDivisionError
  | AttributeError string
  | TypeError string
  | Raised string

text \<open>\<open>str(e)\<close>, as the f-strings of the source format an exception.\<close>

fun str_exn :: "exn \<Rightarrow> string" where
  "str_exn (DocumentNotFoundError d) = ''Document '' @ d @ '' not found''"
| "str_exn (ProcessingError m d) = m"
| "str_exn (InvalidFileError m) = m"
| "str_exn (HTTPException c d) = str_nat c @ '': '' @ d"
| "str_exn (KeyError k) = [CHR 0x27] @ k @ [CHR 0x27]"
| "str_exn IndexError = ''list index out of range''"
| "str_exn ZeroDivisionError = ''integer modulo by zero''"
| "str_exn (AttributeError m) = m"
| "str_exn (TypeError m) = m"
| "str_exn (Raised m) = m"

section \<open>Configuration (\<^verbatim>\<open>app/config.py\<close>)\<close>

record Settings =
  UPLOAD_FOLDER :: string
  IMAGES_FOLDER :: string
  MAX_FILE_SIZE :: int
  MAX_IMAGES_PER_REQUEST :: int
  RATE_LIMIT_DELAY :: int

definition settings :: Settings where
  "settings = \<lparr> UPLOAD_FOLDER = ''storage/uploads'', IMAGES_FOLDER = ''storage/images'',
       MAX_FILE_SIZE = 50 * 1024 * 1024, MAX_IMAGES_PER_REQUEST = 15, RATE_LIMIT_DELAY = 4 \<rparr>"

section \<open>Schemas (\<^verbatim>\<open>app/models/schemas.py\<close>)\<close>

datatype ProcessingStatus = PENDING | PROCESSING | COMPLETED | FAILED

text \<open>The value of the \<open>str\<close> enum member.\<close>

fun status_value :: "ProcessingStatus \<Rightarrow> string" where
  "status_value PENDING = ''pending''"
| "status_value PROCESSING = ''processing''"
| "status_value COMPLETED = ''completed''"
| "status_value FAILED = ''failed''"

record elements_count =
  texts :: nat
  tables :: nat
  images :: nat

record DocumentUploadResponse =
  document_id :: string
  filename :: string
  file_size :: int
  upload_time :: real
  status :: ProcessingStatus

record ProcessingResponse =
  status :: ProcessingStatus
  message :: string
  document_id :: string

record DocumentStatus =
  document_id :: string
  status :: ProcessingStatus
  filename :: string
  upload_time :: real
  processing_time :: "real option"
  elements_count :: "elements_count option"

record SourceInfo =
  content_type :: string
  content :: string
  metadata :: "(string \<times> string) list"

record ImageInfo =
  image_id :: string
  filename :: string
  path :: string
  description :: string
  image_base64 :: "string option"

record StatusInfo =
  status :: string
  message :: string
  estimated_wait_time :: "string option"
  action_required :: "string option"

record QueryResponse =
  answer :: string
  document_id :: string
  processing_time :: real
  sources :: "SourceInfo list"
  related_images :: "ImageInfo list"
  confidence_score :: "real option"
  status_info :: "StatusInfo option"

record QueryRequest =
  document_id :: string
  question :: string
  max_results :: "int option"

section \<open>Document processing (\<^verbatim>\<open>app/services/document_processor.py\<close>)\<close>

text \<open>
  An element returned by the structure parser: the name of its class (what
  \<open>str(type(chunk))\<close> shows), its \<open>text\<close> attribute, the HTML of a table, and the
  original elements of a composite chunk (\<open>None\<close> when \<open>metadata\<close> has no attribute
  \<open>orig_elements\<close>). An original element has the name of its class and, when its
  metadata has the attribute, the base64 image.
\<close>

record orig_element =
  el_type :: string
  image_base64 :: "string option"

record chunk =
  chunk_type :: string
  chunk_text :: string
  text_as_html :: string
  orig_elements :: "orig_element list option"

record image_meta =
  filename :: "string option"
  path :: "string option"
  description :: string
  original_index :: nat
  unique_id :: "string option"

text \<open>
  The external collaborators of an ingestion run. Calls that the source makes once per
  image take the index of the image, so that any pattern of per-image outcomes can be
  given; \<open>uuid4_str\<close> and \<open>uuid4_hex8\<close> are the streams of \<open>str(uuid.uuid4())\<close> and
  \<open>uuid.uuid4().hex[:8]\<close> values. An \<open>exn option\<close> is \<open>Some e\<close> when the call raises
  \<open>e\<close>.
\<close>

record services =
  mkdir :: "string \<Rightarrow> exn option"
  setup_models :: "exn option"
  partition_pdf :: "string \<Rightarrow> exn + chunk list"
  generate_content :: "nat \<Rightarrow> string \<Rightarrow> exn + string"
  uuid4_hex8 :: "nat \<Rightarrow> string"
  write_image :: "nat \<Rightarrow> string \<Rightarrow> string \<Rightarrow> exn option"
  text_chain :: "string \<Rightarrow> exn + string"
  table_chain :: "string \<Rightarrow> exn + string"
  qdrant_client_ready :: bool
  recreate_collection :: "string \<Rightarrow> exn option"
  setup_rag_chain :: "exn option"
  uuid4_str :: "nat \<Rightarrow> string"
  add_documents_error :: "nat \<Rightarrow> exn option"

text \<open>
  The processor object. \<open>image_metadata\<close> is \<open>None\<close> while the attribute does not
  exist (\<open>process_and_save_images\<close> creates it); \<open>text_summaries\<close> and
  \<open>table_summaries\<close> are assigned by \<open>create_summaries\<close> before anything reads them.
  \<open>slept\<close> is the trace of the \<open>asyncio.sleep\<close> calls, in order.
\<close>

record DocumentProcessor =
  document_id :: string
  doc_folder :: string
  chunks :: "chunk list"
  tables :: "chunk list"
  texts :: "chunk list"
  images :: "string list"
  image_descriptions :: "string list"
  image_metadata :: "image_meta list option"
  text_summaries :: "string list"
  table_summaries :: "string list"
  slept :: "int list"

text \<open>\<open>DocumentProcessor.__init__\<close> with \<open>setup_models\<close>.\<close>

definition new_DocumentProcessor :: "Settings \<Rightarrow> services \<Rightarrow> string \<Rightarrow> exn + DocumentProcessor" where
  "new_DocumentProcessor st srv did =
     (let folder = path_join (IMAGES_FOLDER st) did in
      case mkdir srv folder of
        Some e \<Rightarrow> Inl e
      | None \<Rightarrow>
         (case setup_models srv of
            Some e \<Rightarrow> Inl (ProcessingError (''Model initialization failed: '' @ str_exn e) did)
          | None \<Rightarrow>
              Inr \<lparr> DocumentProcessor.document_id = did, doc_folder = folder, chunks = [],
                    tables = [], texts = [], images = [], image_descriptions = [],
                    image_metadata = None, text_summaries = [], table_summaries = [],
                    slept = [] \<rparr>))"

definition extract_images_base64 :: "chunk list \<Rightarrow> string list" where
  "extract_images_base64 cs =
     concat (map (\<lambda>c. case orig_elements c of
                          None \<Rightarrow> []
                        | Some els \<Rightarrow>
                            concat (map (\<lambda>el. if str_contains ''Image'' (el_type el)
                                               then (case orig_element.image_base64 el of
                                                       None \<Rightarrow> [] | Some b \<Rightarrow> [b])
                                               else []) els)) cs)"

definition extract_pdf_content ::
  "services \<Rightarrow> string \<Rightarrow> DocumentProcessor \<Rightarrow> exn + (elements_count \<times> DocumentProcessor)" where
  "extract_pdf_content srv file_path p =
     (case partition_pdf srv file_path of
        Inl e \<Rightarrow> Inl e
      | Inr cs \<Rightarrow>
          (let tbls = filter (\<lambda>c. str_contains ''Table'' (chunk_type c)) cs;
               txts = filter (\<lambda>c. \<not> str_contains ''Table'' (chunk_type c)
                                  \<and> str_contains ''CompositeElement'' (chunk_type c)) cs;
               imgs = extract_images_base64 cs
           in Inr (\<lparr> elements_count.texts = length txts, tables = length tbls,
                       images = length imgs \<rparr>,
                   p\<lparr> chunks := cs, DocumentProcessor.tables := tbls,
                      DocumentProcessor.texts := txts, DocumentProcessor.images := imgs \<rparr>)))"

text \<open>\<open>_describe_image\<close>: every failure of the vision call becomes a description.\<close>

definition describe_image :: "services \<Rightarrow> nat \<Rightarrow> string \<Rightarrow> string" where
  "describe_image srv i image_b64 =
     (case generate_content srv i image_b64 of
        Inl e \<Rightarrow> ''Error processing image: '' @ str_exn e
      | Inr t \<Rightarrow> if t = [] then ''No content detected in image'' else t)"

text \<open>
  \<open>self.image_descriptions.append(d)\<close> and \<open>self.image_metadata.append(m)\<close>; the
  second is only reached inside the loop, where the attribute exists.
\<close>

definition append_description :: "string \<Rightarrow> DocumentProcessor \<Rightarrow> DocumentProcessor" where
  "append_description d p = p\<lparr> image_descriptions := image_descriptions p @ [d] \<rparr>"

definition append_metadata :: "image_meta \<Rightarrow> DocumentProcessor \<Rightarrow> DocumentProcessor" where
  "append_metadata m p =
     p\<lparr> DocumentProcessor.image_metadata :=
          map_option (\<lambda>ms. ms @ [m]) (DocumentProcessor.image_metadata p) \<rparr>"

definition sleep :: "int \<Rightarrow> DocumentProcessor \<Rightarrow> DocumentProcessor" where
  "sleep d p = p\<lparr> slept := slept p @ [d] \<rparr>"

text \<open>The \<open>except Exception as e\<close> branch of the loop body, for image \<open>i\<close>.\<close>

definition image_except :: "nat \<Rightarrow> exn \<Rightarrow> DocumentProcessor \<Rightarrow> DocumentProcessor" where
  "image_except i e p =
     append_metadata
       \<lparr> image_meta.filename = None, path = None,
         description = ''Error processing image: '' @ str_exn e,
         original_index = i, unique_id = None \<rparr>
       (append_description (''Error processing image: '' @ str_exn e) p)"

text \<open>One iteration of the loop of \<open>process_and_save_images\<close>, statement by statement.\<close>

definition process_image :: "Settings \<Rightarrow> services \<Rightarrow> nat \<Rightarrow> string \<Rightarrow> DocumentProcessor \<Rightarrow> DocumentProcessor" where
  "process_image st srv i image_b64 p =
     (let description = describe_image srv i image_b64;
          p1 = append_description description p;
          uid = uuid4_hex8 srv i;
          image_filename = ''image_'' @ str_nat (i + 1) @ ''_'' @ uid @ ''.png'';
          image_path = path_join (doc_folder p) image_filename
      in case write_image srv i image_path image_b64 of
           Some e \<Rightarrow> image_except i e p1
         | None \<Rightarrow>
            (let p2 = append_metadata
                        \<lparr> image_meta.filename = Some image_filename, path = Some image_path,
                          description = description, original_index = i,
                          unique_id = Some uid \<rparr> p1
             in if MAX_IMAGES_PER_REQUEST st = 0 then image_except i ZeroDivisionError p2
                else if (int i + 1) mod MAX_IMAGES_PER_REQUEST st = 0 then sleep 60 p2
                else sleep (RATE_LIMIT_DELAY st) p2))"

fun process_images_from :: "Settings \<Rightarrow> services \<Rightarrow> nat \<Rightarrow> string list \<Rightarrow> DocumentProcessor \<Rightarrow> DocumentProcessor" where
  "process_images_from st srv i [] p = p"
| "process_images_from st srv i (image_b64 # rest) p =
     process_images_from st srv (Suc i) rest (process_image st srv i image_b64 p)"

definition process_and_save_images :: "Settings \<Rightarrow> services \<Rightarrow> DocumentProcessor \<Rightarrow> DocumentProcessor" where
  "process_and_save_images st srv p =
     (if DocumentProcessor.images p = [] then p
      else process_images_from st srv 0 (DocumentProcessor.images p)
             (p\<lparr> DocumentProcessor.image_metadata := Some [] \<rparr>))"

text \<open>\<open>chain.batch(inputs)\<close>: one output per input, in order; the first failure is raised.\<close>

fun batch :: "('a \<Rightarrow> exn + 'b) \<Rightarrow> 'a list \<Rightarrow> exn + 'b list" where
  "batch f [] = Inr []"
| "batch f (x # xs) =
     (case f x of
        Inl e \<Rightarrow> Inl e
      | Inr y \<Rightarrow> (case batch f xs of Inl e \<Rightarrow> Inl e | Inr ys \<Rightarrow> Inr (y # ys)))"

definition create_summaries :: "services \<Rightarrow> DocumentProcessor \<Rightarrow> exn + DocumentProcessor" where
  "create_summaries srv p =
     (case (if DocumentProcessor.texts p \<noteq> []
            then batch (text_chain srv) (map chunk_text (DocumentProcessor.texts p))
            else Inr []) of
        Inl e \<Rightarrow> Inl e
      | Inr ts \<Rightarrow>
         (case (if DocumentProcessor.tables p \<noteq> []
                then batch (table_chain srv) (map text_as_html (DocumentProcessor.tables p))
                else Inr []) of
            Inl e \<Rightarrow> Inl e
          | Inr tbs \<Rightarrow> Inr (p\<lparr> text_summaries := ts, table_summaries := tbs \<rparr>)))"

text \<open>\<open>DocumentProcessor.process_document\<close>: the pipeline, any exception wrapped.\<close>

definition processor_process_document ::
  "Settings \<Rightarrow> services \<Rightarrow> string \<Rightarrow> DocumentProcessor \<Rightarrow> exn + (elements_count \<times> DocumentProcessor)" where
  "processor_process_document st srv file_path p =
     (case (case extract_pdf_content srv file_path p of
              Inl e \<Rightarrow> Inl e
            | Inr (cnt, p1) \<Rightarrow>
               (case create_summaries srv (process_and_save_images st srv p1) of
                  Inl e \<Rightarrow> Inl e
                | Inr p2 \<Rightarrow> Inr (cnt, p2))) of
        Inl e \<Rightarrow> Inl (ProcessingError (''Processing failed: '' @ str_exn e)
                        (DocumentProcessor.document_id p))
      | Inr r \<Rightarrow> Inr r)"

section \<open>Multi-vector index (\<^verbatim>\<open>app/services/rag_service.py\<close>)\<close>

text \<open>
  The dictionary stored for an image, in the vector's metadata and in the docstore.
\<close>

record img_payload =
  filename :: "string option"
  path :: "string option"
  description :: string
  image_index :: nat
  unique_id :: "string option"

text \<open>
  A vector-store \<open>Document\<close>: the summary or description that is embedded, the
  retrieval key \<open>metadata['doc_id']\<close>, the content type, and the image fields of an
  image document.
\<close>

record Document =
  page_content :: string
  doc_id :: string
  content_type :: string
  image_fields :: "img_payload option"

datatype raw_content = RawChunk chunk | RawImage img_payload

record rag_image_meta =
  img_id :: string
  filename :: "string option"
  description :: string
  path :: "string option"
  unique_id :: "string option"
  index :: nat

text \<open>
  The service object: \<open>vectorstore\<close> is the content of the Qdrant collection
  \<open>doc_<id>\<close> in insertion order, \<open>store\<close> the \<open>InMemoryStore\<close> side table.
\<close>

record RAGService =
  document_id :: string
  collection_name :: string
  vectorstore :: "Document list"
  store :: "string \<rightharpoonup> raw_content"
  image_metadata :: "rag_image_meta list"

definition setup_vectorstore :: "services \<Rightarrow> string \<Rightarrow> exn + RAGService" where
  "setup_vectorstore srv did =
     (case (if \<not> qdrant_client_ready srv then Some (HTTPException 500 ''Database not initialized'')
            else recreate_collection srv (''doc_'' @ did)) of
        Some e \<Rightarrow> Inl (ProcessingError (''Vector store setup failed: '' @ str_exn e) did)
      | None \<Rightarrow> Inr \<lparr> RAGService.document_id = did, collection_name = ''doc_'' @ did,
                       vectorstore = [], store = Map.empty, image_metadata = [] \<rparr>)"

text \<open>\<open>RAGService.__init__\<close>: \<open>setup_vectorstore\<close>, then \<open>setup_rag_chain\<close>.\<close>

definition new_RAGService :: "services \<Rightarrow> string \<Rightarrow> exn + RAGService" where
  "new_RAGService srv did =
     (case setup_vectorstore srv did of
        Inl e \<Rightarrow> Inl e
      | Inr rag \<Rightarrow> (case setup_rag_chain srv of Some e \<Rightarrow> Inl e | None \<Rightarrow> Inr rag))"

text \<open>
  \<open>vectorstore.add_documents(docs)\<close>: the call number \<open>n\<close> is the number of vectors
  already stored; it either raises or appends all of \<open>docs\<close>.
\<close>

definition add_documents :: "services \<Rightarrow> Document list \<Rightarrow> RAGService \<Rightarrow> exn + RAGService" where
  "add_documents srv docs rag =
     (case add_documents_error srv (length (vectorstore rag)) of
        Some e \<Rightarrow> Inl e
      | None \<Rightarrow> Inr (rag\<lparr> vectorstore := vectorstore rag @ docs \<rparr>))"

text \<open>\<open>[str(uuid.uuid4()) for _ in xs]\<close>, drawing from position \<open>off\<close> of the stream.\<close>

definition fresh_ids :: "services \<Rightarrow> nat \<Rightarrow> nat \<Rightarrow> string list" where
  "fresh_ids srv off n = map (uuid4_str srv) [off ..< off + n]"

text \<open>
  The text block and the table block of \<open>build_vector_database\<close>: the list comprehension
  reads \<open>ids[i]\<close> for every summary (\<open>IndexError\<close> beyond the ids), the summaries go to
  the vector store, then \<open>zip(ids, raws)\<close> goes to the docstore.
\<close>

definition add_summaries ::
  "services \<Rightarrow> string \<Rightarrow> string list \<Rightarrow> string list \<Rightarrow> chunk list \<Rightarrow> RAGService \<Rightarrow> exn + RAGService" where
  "add_summaries srv ctype ids summaries raws rag =
     (if length ids < length summaries then Inl IndexError
      else case add_documents srv
                  (map (\<lambda>(summary, k). \<lparr> page_content = summary, doc_id = k,
                                             content_type = ctype, image_fields = None \<rparr>)
                       (zip summaries ids)) rag of
             Inl e \<Rightarrow> Inl e
           | Inr rag1 \<Rightarrow> Inr (rag1\<lparr> store := (store rag1)(ids [\<mapsto>] map RawChunk raws) \<rparr>))"

text \<open>The loop over \<open>enumerate(self.processor.image_descriptions)\<close>, from index \<open>i\<close>.\<close>

fun add_images_from ::
  "services \<Rightarrow> DocumentProcessor \<Rightarrow> image_meta list \<Rightarrow> string list \<Rightarrow> nat \<Rightarrow> string list \<Rightarrow> RAGService
     \<Rightarrow> exn + RAGService" where
  "add_images_from srv p metas img_ids i [] rag = Inr rag"
| "add_images_from srv p metas img_ids i (desc # rest) rag =
     (let (fname, pth, uid) =
            (if i < length metas
             then (image_meta.filename (metas ! i), image_meta.path (metas ! i),
                   image_meta.unique_id (metas ! i))
             else (let u = uuid4_hex8 srv (length (DocumentProcessor.images p) + i);
                       f = ''image_'' @ str_nat (i + 1) @ ''_'' @ u @ ''.png''
                   in (Some f, Some (path_join (doc_folder p) f), Some u)))
      in if length img_ids \<le> i then Inl IndexError
         else
          (let payload = \<lparr> img_payload.filename = fname, path = pth, description = desc,
                           image_index = i, unique_id = uid \<rparr>;
               rag1 = rag\<lparr> RAGService.image_metadata := RAGService.image_metadata rag @
                        [\<lparr> img_id = img_ids ! i, filename = fname, description = desc,
                           path = pth, unique_id = uid, index = i \<rparr>] \<rparr>
           in case add_documents srv
                     [\<lparr> page_content = desc, doc_id = img_ids ! i,
                        content_type = ''image'', image_fields = Some payload \<rparr>] rag1 of
                Inl e \<Rightarrow> Inl e
              | Inr rag2 \<Rightarrow>
                  add_images_from srv p metas img_ids (Suc i) rest
                    (rag2\<lparr> store := (store rag2)(img_ids ! i \<mapsto> RawImage payload) \<rparr>)))"

text \<open>
  \<open>build_vector_database\<close>. The uuid stream is consumed in program order: the text
  keys (when there are text summaries), then the table keys, then the image keys.
\<close>

definition build_body :: "services \<Rightarrow> DocumentProcessor \<Rightarrow> RAGService \<Rightarrow> exn + RAGService" where
  "build_body srv p rag =
     (let n1 = (if text_summaries p \<noteq> [] then length (DocumentProcessor.texts p) else 0);
          n2 = n1 + (if table_summaries p \<noteq> [] then length (DocumentProcessor.tables p) else 0)
      in case (if text_summaries p \<noteq> []
               then add_summaries srv ''text'' (fresh_ids srv 0 (length (DocumentProcessor.texts p)))
                      (text_summaries p) (DocumentProcessor.texts p) rag
               else Inr rag) of
           Inl e \<Rightarrow> Inl e
         | Inr rag1 \<Rightarrow>
            (case (if table_summaries p \<noteq> []
                   then add_summaries srv ''table''
                          (fresh_ids srv n1 (length (DocumentProcessor.tables p)))
                          (table_summaries p) (DocumentProcessor.tables p) rag1
                   else Inr rag1) of
               Inl e \<Rightarrow> Inl e
             | Inr rag2 \<Rightarrow>
                (case DocumentProcessor.image_metadata p of
                   None \<Rightarrow> Inr rag2
                 | Some metas \<Rightarrow>
                     if image_descriptions p = [] then Inr rag2
                     else add_images_from srv p metas
                            (fresh_ids srv n2 (length (DocumentProcessor.images p)))
                            0 (image_descriptions p) rag2)))"

definition build_vector_database :: "services \<Rightarrow> DocumentProcessor \<Rightarrow> RAGService \<Rightarrow> exn + RAGService" where
  "build_vector_database srv p rag =
     (case build_body srv p rag of
        Inl e \<Rightarrow> Inl (ProcessingError (''Vector database build failed: '' @ str_exn e)
                        (RAGService.document_id rag))
      | Inr rag1 \<Rightarrow> Inr rag1)"

text \<open>
  \<open>RAGService.query\<close>. Retrieval, prompt assembly and generation (the body of the
  \<open>try\<close>) are the environment's \<open>retrieve_and_generate\<close>, which yields the answer, the
  sources, the related images and the elapsed time, or raises; the method builds the
  response from them and wraps every exception.
\<close>

record query_services =
  retrieve_and_generate ::
    "RAGService \<Rightarrow> string \<Rightarrow> int option \<Rightarrow> exn + (string \<times> SourceInfo list \<times> ImageInfo list \<times> real)"

definition query :: "query_services \<Rightarrow> RAGService \<Rightarrow> string \<Rightarrow> int option \<Rightarrow> exn + QueryResponse" where
  "query qs rag q k =
     (case retrieve_and_generate qs rag q k of
        Inl e \<Rightarrow> Inl (ProcessingError (''Query failed: '' @ str_exn e) (RAGService.document_id rag))
      | Inr (ans, srcs, imgs, t) \<Rightarrow>
          Inr \<lparr> answer = ans, document_id = RAGService.document_id rag, processing_time = t,
                sources = srcs, related_images = imgs, confidence_score = None,
                status_info = None \<rparr>)"

section \<open>Shared store and document endpoints (\<^verbatim>\<open>app/api/documents.py\<close>)\<close>

record doc_info =
  filename :: string
  file_path :: string
  file_size :: int
  upload_time :: real
  status :: ProcessingStatus
  processing_time :: "real option"
  elements_count :: "elements_count option"
  error_message :: "string option"

text \<open>
  The module-level dictionaries \<open>document_store\<close> and \<open>rag_services\<close>, and the
  background tasks of the event loop: \<open>background_tasks\<close> holds the tasks that
  \<open>add_task\<close> has scheduled and that have not started, \<open>running_tasks\<close> those that are
  suspended at an \<open>await\<close> of the ingestion, each with the \<open>file_path\<close> it read when it
  started.
\<close>

record app_state =
  document_store :: "string \<rightharpoonup> doc_info"
  rag_services :: "string \<rightharpoonup> RAGService"
  background_tasks :: "string list"
  running_tasks :: "(string \<times> string) list"

definition init_state :: app_state where
  "init_state = \<lparr> document_store = Map.empty, rag_services = Map.empty,
                   background_tasks = [], running_tasks = [] \<rparr>"

text \<open>
  What FastAPI hands to \<open>upload_document\<close> (\<open>filename\<close> and \<open>size\<close> are optional
  attributes of \<open>UploadFile\<close>) and what the environment supplies during the call: the
  uuid drawn, the outcome of writing the file, and the two clock readings.
\<close>

record UploadFile =
  filename :: "string option"
  size :: "int option"

record upload_io =
  uuid4 :: string
  write_error :: "exn option"
  now_stored :: real
  now_returned :: real

definition upload_document ::
  "Settings \<Rightarrow> upload_io \<Rightarrow> UploadFile \<Rightarrow> app_state \<Rightarrow> (exn + DocumentUploadResponse) \<times> app_state" where
  "upload_document st io file s =
     (case UploadFile.filename file of
        None \<Rightarrow> (Inl (AttributeError ([CHR 0x27] @ ''NoneType'' @ [CHR 0x27]
                    @ '' object has no attribute '' @ [CHR 0x27] @ ''endswith'' @ [CHR 0x27])), s)
      | Some name \<Rightarrow>
         if \<not> suffix ''.pdf'' name then (Inl (InvalidFileError ''Only PDF files are allowed''), s)
         else
          (case size file of
             None \<Rightarrow> (Inl (TypeError ([CHR 0x27] @ ''>'' @ [CHR 0x27]
                       @ '' not supported between instances of '' @ [CHR 0x27] @ ''NoneType''
                       @ [CHR 0x27] @ '' and '' @ [CHR 0x27] @ ''int'' @ [CHR 0x27])), s)
           | Some sz \<Rightarrow>
              if sz > MAX_FILE_SIZE st
              then (Inl (InvalidFileError (''File too large. Max size: ''
                           @ str_int (MAX_FILE_SIZE st) @ '' bytes'')), s)
              else
               (let did = uuid4 io;
                    fpath = path_join (UPLOAD_FOLDER st) (did @ ''_'' @ name)
                in case write_error io of
                     Some e \<Rightarrow> (Inl (HTTPException 500 ''Upload failed''), s)
                   | None \<Rightarrow>
                      (Inr \<lparr> DocumentUploadResponse.document_id = did, filename = name,
                             file_size = sz, upload_time = now_returned io, status = PENDING \<rparr>,
                       s\<lparr> document_store := (document_store s)(did \<mapsto>
                            \<lparr> doc_info.filename = name, file_path = fpath, file_size = sz,
                              upload_time = now_stored io, status = PENDING,
                              processing_time = None, elements_count = None,
                              error_message = None \<rparr>) \<rparr>))))"

definition process_document :: "string \<Rightarrow> app_state \<Rightarrow> (exn + ProcessingResponse) \<times> app_state" where
  "process_document did s =
     (case document_store s did of
        None \<Rightarrow> (Inl (HTTPException 404 ''Document not found''), s)
      | Some info \<Rightarrow>
         if doc_info.status info = PROCESSING
         then (Inr \<lparr> ProcessingResponse.status = PROCESSING,
                     message = ''Document is already being processed. You'' @ [CHR 0x27]
                               @ ''ll be notified when it'' @ [CHR 0x27] @ ''s ready.'',
                     document_id = did \<rparr>, s)
         else if doc_info.status info = COMPLETED
         then (Inr \<lparr> ProcessingResponse.status = COMPLETED,
                     message = ''Document has already been processed and is ready for queries.'',
                     document_id = did \<rparr>, s)
         else (Inr \<lparr> ProcessingResponse.status = PROCESSING,
                     message = ''Document processing has started. This usually takes 1-2 minutes. ''
                               @ ''You can check the status or wait for completion notification.'',
                     document_id = did \<rparr>,
               s\<lparr> background_tasks := background_tasks s @ [did],
                  document_store := (document_store s)(did \<mapsto> info\<lparr> doc_info.status := PROCESSING \<rparr>) \<rparr>))"

definition get_document_status :: "string \<Rightarrow> app_state \<Rightarrow> exn + DocumentStatus" where
  "get_document_status did s =
     (case document_store s did of
        None \<Rightarrow> Inl (HTTPException 404 ''Document not found'')
      | Some info \<Rightarrow>
          Inr \<lparr> DocumentStatus.document_id = did, status = doc_info.status info,
                filename = doc_info.filename info, upload_time = doc_info.upload_time info,
                processing_time = doc_info.processing_time info,
                elements_count = doc_info.elements_count info \<rparr>)"

text \<open>
  \<open>delete_document\<close>; \<open>fs_error\<close> is the outcome of removing the file and the image
  folder, which happens before anything is removed from the dictionaries.
\<close>

definition delete_document :: "exn option \<Rightarrow> string \<Rightarrow> app_state \<Rightarrow> (exn + string) \<times> app_state" where
  "delete_document fs_error did s =
     (case document_store s did of
        None \<Rightarrow> (Inl (HTTPException 404 ''Document not found''), s)
      | Some info \<Rightarrow>
         (case fs_error of
            Some e \<Rightarrow> (Inl (HTTPException 500 ''Failed to delete document''), s)
          | None \<Rightarrow>
             (Inr ''Document deleted successfully'',
              s\<lparr> document_store := (document_store s)(did := None),
                 rag_services := (rag_services s)(did := None) \<rparr>)))"

text \<open>The \<open>query_document\<close> of \<^verbatim>\<open>documents.py\<close> (\<open>POST /query/{document_id}\<close>).\<close>

definition documents_query_document ::
  "query_services \<Rightarrow> string \<Rightarrow> QueryRequest \<Rightarrow> app_state \<Rightarrow> exn + QueryResponse" where
  "documents_query_document qs did query_request s =
     (case document_store s did of
        None \<Rightarrow> Inl (HTTPException 404 ''Document not found'')
      | Some info \<Rightarrow>
         if doc_info.status info \<noteq> COMPLETED
         then Inl (HTTPException 400 ''Document is not processed yet'')
         else
          (case rag_services s did of
             None \<Rightarrow> Inl (HTTPException 500 ''RAG service not found for this document'')
           | Some rag_service \<Rightarrow>
              (case query qs rag_service (question query_request) (max_results query_request) of
                 Inl e \<Rightarrow> Inl (HTTPException 500 (''Query failed: '' @ str_exn e))
               | Inr response \<Rightarrow> Inr response)))"

subsection \<open>The ingestion task \<open>process_document_background\<close>\<close>

text \<open>
  After each change of status the task awaits \<open>broadcast_status_update\<close>, which reads
  the store and writes to the open websockets, catching every failure of a send; it
  changes neither dictionary and is left out of the state. What matters of it here is
  that it is an \<open>await\<close>: other handlers may run between the parts of the task.
\<close>

text \<open>
  The extraction, image, summary and index steps of the task (lines 43 to 52), on the
  \<open>file_path\<close> that the task read when it started.
\<close>

definition ingest :: "Settings \<Rightarrow> services \<Rightarrow> string \<Rightarrow> string \<Rightarrow> exn + (elements_count \<times> RAGService)" where
  "ingest st srv did fpath =
     (case new_DocumentProcessor st srv did of
        Inl e \<Rightarrow> Inl e
      | Inr processor \<Rightarrow>
         (case processor_process_document st srv fpath processor of
            Inl e \<Rightarrow> Inl e
          | Inr (cnt, p) \<Rightarrow>
             (case new_RAGService srv did of
                Inl e \<Rightarrow> Inl e
              | Inr rag \<Rightarrow>
                 (case build_vector_database srv p rag of
                    Inl e \<Rightarrow> Inl e
                  | Inr rag1 \<Rightarrow> Inr (cnt, rag1)))))"

text \<open>
  The \<open>except Exception as e\<close> handler of the task: it writes into
  \<open>document_store[document_id]\<close>, which raises \<open>KeyError\<close> out of the task when the
  document has been deleted.
\<close>

definition background_except :: "string \<Rightarrow> exn \<Rightarrow> app_state \<Rightarrow> exn option \<times> app_state" where
  "background_except did e s =
     (case document_store s did of
        None \<Rightarrow> (Some (KeyError did), s)
      | Some info \<Rightarrow>
          (None, s\<lparr> document_store := (document_store s)(did \<mapsto>
                      info\<lparr> doc_info.status := FAILED, error_message := Some (str_exn e) \<rparr>) \<rparr>))"

text \<open>
  The task up to its first \<open>await\<close> (lines 27 to 36): it reads \<open>file_path\<close> and sets
  PROCESSING. The result is the path, or the exception that ended the task.
\<close>

definition background_start :: "string \<Rightarrow> app_state \<Rightarrow> (exn + string) \<times> app_state" where
  "background_start did s =
     (case document_store s did of
        None \<Rightarrow> (case background_except did (KeyError did) s of
                   (Some e, s1) \<Rightarrow> (Inl e, s1)
                 | (None, s1) \<Rightarrow> (Inl (KeyError did), s1))
      | Some info \<Rightarrow>
          (Inr (file_path info),
           s\<lparr> document_store := (document_store s)(did \<mapsto> info\<lparr> doc_info.status := PROCESSING \<rparr>) \<rparr>))"

text \<open>
  The rest of the task (lines 40 to 85); \<open>elapsed\<close> is \<open>time.time() - start_time\<close>.
  The result is the exception that leaves the task, if any.
\<close>

definition background_finish ::
  "Settings \<Rightarrow> services \<Rightarrow> real \<Rightarrow> string \<Rightarrow> string \<Rightarrow> app_state \<Rightarrow> exn option \<times> app_state" where
  "background_finish st srv elapsed did fpath s =
     (case ingest st srv did fpath of
        Inl e \<Rightarrow> background_except did e s
      | Inr (cnt, rag_service) \<Rightarrow>
         (let s1 = s\<lparr> rag_services := (rag_services s)(did \<mapsto> rag_service) \<rparr>
          in case document_store s1 did of
               None \<Rightarrow> background_except did (KeyError did) s1
             | Some info \<Rightarrow>
                 (None, s1\<lparr> document_store := (document_store s1)(did \<mapsto>
                              info\<lparr> doc_info.status := COMPLETED,
                                    processing_time := Some elapsed,
                                    elements_count := Some cnt \<rparr>) \<rparr>)))"

text \<open>The whole task when nothing else runs between its two parts.\<close>

definition process_document_background ::
  "Settings \<Rightarrow> services \<Rightarrow> real \<Rightarrow> string \<Rightarrow> app_state \<Rightarrow> exn option \<times> app_state" where
  "process_document_background st srv elapsed did s =
     (case background_start did s of
        (Inl e, s1) \<Rightarrow> (Some e, s1)
      | (Inr fpath, s1) \<Rightarrow> background_finish st srv elapsed did fpath s1)"

section \<open>Query endpoint (\<^verbatim>\<open>app/api/queries.py\<close>)\<close>

definition queries_query_document :: "query_services \<Rightarrow> QueryRequest \<Rightarrow> app_state \<Rightarrow> exn + QueryResponse" where
  "queries_query_document qs request s =
     (let did = QueryRequest.document_id request in
      case document_store s did of
        None \<Rightarrow> Inl (DocumentNotFoundError did)
      | Some info \<Rightarrow>
         if doc_info.status info = PENDING then
           Inr \<lparr> answer = [CHR 0xF0, CHR 0x9F, CHR 0x93, CHR 0x8B]
                   @ '' Your document is currently queued for processing. ''
                   @ ''Please wait a moment and try again.'',
                 document_id = did, processing_time = 0, sources = [], related_images = [],
                 confidence_score = Some 0,
                 status_info = Some \<lparr> StatusInfo.status = status_value PENDING,
                   message = ''Document is queued for processing'',
                   estimated_wait_time = Some ''1-2 minutes'', action_required = None \<rparr> \<rparr>
         else if doc_info.status info = PROCESSING then
           Inr \<lparr> answer = [CHR 0xE2, CHR 0x9A, CHR 0xA1]
                   @ '' Your document is currently being processed. This usually takes 1-2 minutes ''
                   @ ''depending on document complexity. Please try your query again in a moment.'',
                 document_id = did, processing_time = 0, sources = [], related_images = [],
                 confidence_score = Some 0,
                 status_info = Some \<lparr> StatusInfo.status = status_value PROCESSING,
                   message = ''Document is being processed'',
                   estimated_wait_time = Some ''30-120 seconds'', action_required = None \<rparr> \<rparr>
         else if doc_info.status info = FAILED then
           Inr \<lparr> answer = [CHR 0xE2, CHR 0x9D, CHR 0x8C]
                   @ '' Unfortunately, there was an error processing your document. Please try ''
                   @ ''uploading the document again or contact support if the issue persists.'',
                 document_id = did, processing_time = 0, sources = [], related_images = [],
                 confidence_score = Some 0,
                 status_info = Some \<lparr> StatusInfo.status = status_value FAILED,
                   message = ''Document processing failed'',
                   estimated_wait_time = None,
                   action_required = Some ''Re-upload document or contact support'' \<rparr> \<rparr>
         else
          (case rag_services s did of
             None \<Rightarrow> Inl (ProcessingError ''RAG service not available'' did)
           | Some rag_service \<Rightarrow>
              (case query qs rag_service (question request)
                      (case max_results request of
                         None \<Rightarrow> Some 5
                       | Some n \<Rightarrow> if n = 0 then Some 5 else Some n) of
                 Inr response \<Rightarrow>
                   Inr (response\<lparr> status_info := Some \<lparr> StatusInfo.status = status_value COMPLETED,
                          message = ''Query completed successfully'',
                          estimated_wait_time = None, action_required = None \<rparr> \<rparr>)
               | Inl e \<Rightarrow>
                   Inr \<lparr> answer = [CHR 0xF0, CHR 0x9F, CHR 0x94, CHR 0xA7]
                           @ '' There was a technical issue processing your query. Please try ''
                           @ ''again or contact support if the problem continues.'',
                         document_id = did, processing_time = 0, sources = [],
                         related_images = [], confidence_score = Some 0,
                         status_info = Some \<lparr> StatusInfo.status = ''error'',
                           message = ''Query processing error: '' @ str_exn e,
                           estimated_wait_time = None,
                           action_required = Some ''Try again or contact support'' \<rparr> \<rparr>)))"

section \<open>Sequences of operations\<close>

text \<open>
  One event is one uninterrupted piece of code of the event loop: a request handler,
  or one of the two parts of a scheduled ingestion task. A task part runs only when the
  task is in the corresponding queue.
\<close>

datatype event =
    Upload upload_io UploadFile
  | Process string
  | Status string
  | Query query_services QueryRequest
  | Delete "exn option" string
  | BackgroundStart string
  | BackgroundFinish services real string

definition start_task :: "string \<Rightarrow> app_state \<Rightarrow> app_state" where
  "start_task did s =
     (if did \<in> set (background_tasks s) then
        (let s0 = s\<lparr> background_tasks := remove1 did (background_tasks s) \<rparr> in
         case background_start did s0 of
           (Inl e, s1) \<Rightarrow> s1
         | (Inr fpath, s1) \<Rightarrow> s1\<lparr> running_tasks := running_tasks s1 @ [(did, fpath)] \<rparr>)
      else s)"

definition finish_task :: "Settings \<Rightarrow> services \<Rightarrow> real \<Rightarrow> string \<Rightarrow> app_state \<Rightarrow> app_state" where
  "finish_task st srv elapsed did s =
     (case map_of (running_tasks s) did of
        None \<Rightarrow> s
      | Some fpath \<Rightarrow>
          snd (background_finish st srv elapsed did fpath
                 (s\<lparr> running_tasks := remove1 (did, fpath) (running_tasks s) \<rparr>)))"

fun step :: "Settings \<Rightarrow> app_state \<Rightarrow> event \<Rightarrow> app_state" where
  "step st s (Upload io file) = snd (upload_document st io file s)"
| "step st s (Process did) = snd (process_document did s)"
| "step st s (Status did) = s"
| "step st s (Query qs request) = s"
| "step st s (Delete fs_error did) = snd (delete_document fs_error did s)"
| "step st s (BackgroundStart did) = start_task did s"
| "step st s (BackgroundFinish srv elapsed did) = finish_task st srv elapsed did s"

definition run :: "Settings \<Rightarrow> event list \<Rightarrow> app_state" where
  "run st evs = foldl (step st) init_state evs"

text \<open>The current state of a document, \<open>None\<close> when it is not registered.\<close>

definition status_of :: "app_state \<Rightarrow> string \<Rightarrow> ProcessingStatus option" where
  "status_of s did = map_option doc_info.status (document_store s did)"

text \<open>The uuids that the environment hands to the uploads of a sequence of events.\<close>

fun upload_ids :: "event list \<Rightarrow> string list" where
  "upload_ids [] = []"
| "upload_ids (Upload io file # evs) = uuid4 io # upload_ids evs"
| "upload_ids (ev # evs) = upload_ids evs"

text \<open>
  Whether the \<open>try\<close> block of the image loop raises for image \<open>i\<close>: the description
  never raises (\<open>_describe_image\<close> catches everything), so what can raise is saving the
  image, and the modulo when the batch size is zero.
\<close>

definition image_raises :: "Settings \<Rightarrow> services \<Rightarrow> DocumentProcessor \<Rightarrow> nat \<Rightarrow> string \<Rightarrow> bool" where
  "image_raises st srv p i image_b64 =
     (case write_image srv i
             (path_join (doc_folder p)
                (''image_'' @ str_nat (i + 1) @ ''_'' @ uuid4_hex8 srv i @ ''.png'')) image_b64 of
        Some e \<Rightarrow> True
      | None \<Rightarrow> MAX_IMAGES_PER_REQUEST st = 0)"

subsection \<open>Invariants of the reachable states\<close>

definition tasks :: "app_state \<Rightarrow> string list" where
  "tasks s = background_tasks s @ map fst (running_tasks s)"

text \<open>
  A document has at most one ingestion task, and while the task exists the document is
  PROCESSING (or has been deleted).
\<close>

definition task_inv :: "app_state \<Rightarrow> bool" where
  "task_inv s \<longleftrightarrow>
     distinct (tasks s) \<and> (\<forall>d \<in> set (tasks s). status_of s d \<in> {None, Some PROCESSING})"

text \<open>
  The index of a document is registered only when its build has succeeded, so a
  registered document that has an index is COMPLETED; and in a registered index the keys
  of the vectors are the keys of the docstore.
\<close>

definition index_consistent :: "RAGService \<Rightarrow> bool" where
  "index_consistent rag \<longleftrightarrow> doc_id ` set (vectorstore rag) = dom (store rag)"

definition rag_inv :: "app_state \<Rightarrow> bool" where
  "rag_inv s \<longleftrightarrow>
     (\<forall>d rag. rag_services s d = Some rag \<longrightarrow>
        status_of s d \<in> {None, Some COMPLETED} \<and> index_consistent rag)"

text \<open>A COMPLETED document has its index registered.\<close>

definition completed_inv :: "app_state \<Rightarrow> bool" where
  "completed_inv s \<longleftrightarrow> (\<forall>d. status_of s d = Some COMPLETED \<longrightarrow> rag_services s d \<noteq> None)"

definition known_ids :: "app_state \<Rightarrow> string set" where
  "known_ids s = dom (document_store s) \<union> dom (rag_services s) \<union> set (tasks s)"

section \<open>Scenarios\<close>

text \<open>
  A document with one text chunk that holds one image. In \<open>example_services\<close> every
  collaborator succeeds, except that the vision service fails on every image.
\<close>

definition example_chunks :: "chunk list" where
  "example_chunks =
     [\<lparr> chunk_type = ''CompositeElement'', chunk_text = ''Introduction'', text_as_html = [],
        orig_elements = Some [\<lparr> el_type = ''Image'', image_base64 = Some ''aGVsbG8='' \<rparr>] \<rparr>]"

definition example_services :: services where
  "example_services =
     \<lparr> mkdir = (\<lambda>folder. None), setup_models = None,
       partition_pdf = (\<lambda>file_path. Inr example_chunks),
       generate_content = (\<lambda>i image_b64. Inl (Raised ''quota exceeded'')),
       uuid4_hex8 = (\<lambda>i. ''a1b2c3d4''),
       write_image = (\<lambda>i image_path image_b64. None),
       text_chain = (\<lambda>element. Inr (''Summary: '' @ element)),
       table_chain = (\<lambda>element. Inr (''Table summary: '' @ element)),
       qdrant_client_ready = True, recreate_collection = (\<lambda>name. None),
       setup_rag_chain = None,
       uuid4_str = (\<lambda>n. ''key-'' @ str_nat n),
       add_documents_error = (\<lambda>n. None) \<rparr>"

definition example_upload :: event where
  "example_upload =
     Upload \<lparr> uuid4 = ''doc-1'', write_error = None, now_stored = 0, now_returned = 0 \<rparr>
            \<lparr> UploadFile.filename = Some ''report.pdf'', size = Some 1024 \<rparr>"

text \<open>A processor that has extracted the images \<open>imgs\<close> and nothing else.\<close>

definition example_processor :: "string list \<Rightarrow> DocumentProcessor" where
  "example_processor imgs =
     \<lparr> DocumentProcessor.document_id = ''doc-1'', doc_folder = ''storage/images/doc-1'',
       chunks = [], tables = [], texts = [], images = imgs, image_descriptions = [],
       image_metadata = None, text_summaries = [], table_summaries = [], slept = [] \<rparr>"

section \<open>Evaluation of the model on concrete inputs\<close>

lemmas model_defs = run_def example_upload_def example_services_def example_chunks_def
  example_processor_def upload_document_def process_document_def start_task_def finish_task_def
  background_start_def background_finish_def background_except_def ingest_def
  new_DocumentProcessor_def processor_process_document_def extract_pdf_content_def
  extract_images_base64_def process_and_save_images_def process_image_def describe_image_def
  append_description_def append_metadata_def sleep_def image_except_def create_summaries_def
  new_RAGService_def setup_vectorstore_def build_vector_database_def build_body_def
  add_summaries_def add_documents_def fresh_ids_def settings_def init_state_def status_of_def
  path_join_def suffix_def prefix_def Let_def delete_document_def get_document_status_def
  queries_query_document_def documents_query_document_def query_def image_raises_def
  process_document_background_def

section \<open>Properties of the image pipeline\<close>

subsection \<open>Batches preserve length\<close>

lemma batch_Inr_length: "batch f xs = Inr ys \<Longrightarrow> length ys = length xs"
  by (induction xs arbitrary: ys) (auto split: sum.splits)

lemma batch_total: "(\<And>x. \<not> isl (f x)) \<Longrightarrow> batch f xs = Inr (map (\<lambda>x. projr (f x)) xs)"
proof (induction xs)
  case Nil
  then show ?case by simp
next
  case (Cons x xs)
  obtain y where "f x = Inr y"
    using Cons.prems [of x] by (cases "f x") simp_all
  then show ?case
    using Cons by simp
qed

subsection \<open>The image loop\<close>

lemma process_image_fields [simp]:
  "doc_folder (process_image st srv i img p) = doc_folder p"
  "DocumentProcessor.document_id (process_image st srv i img p) = DocumentProcessor.document_id p"
  "DocumentProcessor.texts (process_image st srv i img p) = DocumentProcessor.texts p"
  "DocumentProcessor.tables (process_image st srv i img p) = DocumentProcessor.tables p"
  "DocumentProcessor.images (process_image st srv i img p) = DocumentProcessor.images p"
  "text_summaries (process_image st srv i img p) = text_summaries p"
  "table_summaries (process_image st srv i img p) = table_summaries p"
  by (auto simp: process_image_def Let_def image_except_def append_metadata_def
        append_description_def sleep_def split: option.splits)

lemma process_images_from_fields [simp]:
  "doc_folder (process_images_from st srv i imgs p) = doc_folder p"
  "DocumentProcessor.document_id (process_images_from st srv i imgs p) = DocumentProcessor.document_id p"
  "DocumentProcessor.texts (process_images_from st srv i imgs p) = DocumentProcessor.texts p"
  "DocumentProcessor.tables (process_images_from st srv i imgs p) = DocumentProcessor.tables p"
  "DocumentProcessor.images (process_images_from st srv i imgs p) = DocumentProcessor.images p"
  "text_summaries (process_images_from st srv i imgs p) = text_summaries p"
  "table_summaries (process_images_from st srv i imgs p) = table_summaries p"
  by (induction imgs arbitrary: i p) simp_all

lemma descriptions_process_image:
  "image_descriptions (process_image st srv i img p) =
     image_descriptions p @
       (if image_raises st srv p i img
        then [describe_image srv i img,
              ''Error processing image: '' @ str_exn
                 (case write_image srv i (path_join (doc_folder p)
                    (''image_'' @ str_nat (i + 1) @ ''_'' @ uuid4_hex8 srv i @ ''.png'')) img of
                    Some e \<Rightarrow> e | None \<Rightarrow> ZeroDivisionError)]
        else [describe_image srv i img])"
  by (auto simp: process_image_def Let_def image_except_def append_metadata_def
        append_description_def sleep_def image_raises_def split: option.splits)

lemma length_descriptions_process_image:
  "length (image_descriptions (process_image st srv i img p)) =
     length (image_descriptions p) + (if image_raises st srv p i img then 2 else 1)"
  by (simp add: descriptions_process_image)

lemma metadata_process_image_Some:
  "DocumentProcessor.image_metadata p = Some ms \<Longrightarrow>
   \<exists>ms'. DocumentProcessor.image_metadata (process_image st srv i img p) = Some ms'
        \<and> length ms < length ms'"
  by (auto simp: process_image_def Let_def image_except_def append_metadata_def
        append_description_def sleep_def split: option.splits)

lemma image_raises_cong:
  "doc_folder p = doc_folder q \<Longrightarrow> image_raises st srv p = image_raises st srv q"
  by (simp add: image_raises_def fun_eq_iff)

lemma length_descriptions_loop:
  "length (image_descriptions (process_images_from st srv i imgs p)) =
     length (image_descriptions p) + length imgs
       + length (filter (\<lambda>(j, img). image_raises st srv p j img) (enumerate i imgs))"
proof (induction imgs arbitrary: i p)
  case Nil
  then show ?case by simp
next
  case (Cons img imgs)
  have folder: "image_raises st srv (process_image st srv i img p) = image_raises st srv p"
    by (rule image_raises_cong) simp
  show ?case
    by (simp add: Cons.IH folder length_descriptions_process_image)
qed

lemma metadata_loop_Some:
  "DocumentProcessor.image_metadata p = Some ms \<Longrightarrow>
   \<exists>ms'. DocumentProcessor.image_metadata (process_images_from st srv i imgs p) = Some ms'
        \<and> length ms + length imgs \<le> length ms'"
proof (induction imgs arbitrary: i p ms)
  case Nil
  then show ?case by simp
next
  case (Cons img imgs)
  from metadata_process_image_Some [OF Cons.prems, of st srv i img]
  obtain ms1 where m1: "DocumentProcessor.image_metadata (process_image st srv i img p) = Some ms1"
    and l1: "length ms < length ms1" by blast
  from Cons.IH [OF m1, of "Suc i"] obtain ms' where
    "DocumentProcessor.image_metadata (process_images_from st srv (Suc i) imgs (process_image st srv i img p)) = Some ms'"
    "length ms1 + length imgs \<le> length ms'" by blast
  with l1 show ?case by auto
qed

text \<open>When no image raises, the loop is a map over the enumerated images.\<close>

lemma process_image_ok:
  assumes "\<not> image_raises st srv p i img" and "DocumentProcessor.image_metadata p = Some ms"
  shows "image_descriptions (process_image st srv i img p) = image_descriptions p @ [describe_image srv i img]"
    and "DocumentProcessor.image_metadata (process_image st srv i img p) =
           Some (ms @ [\<lparr> image_meta.filename = Some (''image_'' @ str_nat (i + 1) @ ''_'' @ uuid4_hex8 srv i @ ''.png''),
                         path = Some (path_join (doc_folder p) (''image_'' @ str_nat (i + 1) @ ''_'' @ uuid4_hex8 srv i @ ''.png'')),
                         description = describe_image srv i img, original_index = i,
                         unique_id = Some (uuid4_hex8 srv i) \<rparr>])"
  using assms
  by (auto simp: process_image_def Let_def image_except_def append_metadata_def
        append_description_def sleep_def image_raises_def split: option.splits)

lemma loop_ok:
  assumes "\<forall>(j, img) \<in> set (enumerate i imgs). \<not> image_raises st srv p j img"
      and "DocumentProcessor.image_metadata p = Some ms"
  shows "image_descriptions (process_images_from st srv i imgs p) =
           image_descriptions p @ map (\<lambda>(j, img). describe_image srv j img) (enumerate i imgs)
       \<and> (\<exists>ms'. DocumentProcessor.image_metadata (process_images_from st srv i imgs p) = Some ms'
             \<and> length ms' = length ms + length imgs
             \<and> map image_meta.description ms' = map image_meta.description ms @
                  map (\<lambda>(j, img). describe_image srv j img) (enumerate i imgs))"
  using assms
proof (induction imgs arbitrary: i p ms)
  case Nil
  then show ?case by simp
next
  case (Cons img imgs)
  have folder: "image_raises st srv (process_image st srv i img p) = image_raises st srv p"
    by (rule image_raises_cong) simp
  from Cons.prems have ok: "\<not> image_raises st srv p i img"
    and rest: "\<forall>(j, img) \<in> set (enumerate (Suc i) imgs). \<not> image_raises st srv p j img"
    by auto
  note step = process_image_ok [OF ok Cons.prems(2)]
  from rest have rest': "\<forall>(j, b) \<in> set (enumerate (Suc i) imgs).
       \<not> image_raises st srv (process_image st srv i img p) j b"
    by (simp add: folder)
  from Cons.IH [OF rest' step(2)] show ?case
    by (auto simp: step(1))
qed


section \<open>Properties of the index build\<close>

lemma add_documents_Inr:
  "add_documents srv docs rag = Inr rag' \<Longrightarrow> rag' = rag\<lparr> vectorstore := vectorstore rag @ docs \<rparr>"
  by (auto simp: add_documents_def split: option.splits)

lemma add_documents_ok:
  "add_documents_error srv (length (vectorstore rag)) = None \<Longrightarrow>
   add_documents srv docs rag = Inr (rag\<lparr> vectorstore := vectorstore rag @ docs \<rparr>)"
  by (simp add: add_documents_def)

lemma add_summaries_Inr:
  assumes "add_summaries srv ctype ids summaries raws rag = Inr rag'"
  shows "length summaries \<le> length ids"
    and "map doc_id (vectorstore rag') = map doc_id (vectorstore rag) @ take (length summaries) ids"
    and "map page_content (vectorstore rag') = map page_content (vectorstore rag) @ summaries"
    and "store rag' = (store rag)(ids [\<mapsto>] map RawChunk raws)"
    and "RAGService.image_metadata rag' = RAGService.image_metadata rag"
proof -
  from assms have len: "length summaries \<le> length ids"
    by (auto simp: add_summaries_def split: if_splits)
  from assms obtain rag1 where
    r1: "rag1 = rag\<lparr> vectorstore := vectorstore rag @
            map (\<lambda>(summary, k). \<lparr> page_content = summary, doc_id = k,
                                      content_type = ctype, image_fields = None \<rparr>)
                (zip summaries ids) \<rparr>"
    and r': "rag' = rag1\<lparr> store := (store rag1)(ids [\<mapsto>] map RawChunk raws) \<rparr>"
    by (auto simp: add_summaries_def split: if_splits sum.splits dest!: add_documents_Inr)
  have z1: "map (doc_id \<circ> (\<lambda>(summary, k). \<lparr> page_content = summary, doc_id = k,
                 content_type = ctype, image_fields = None \<rparr>)) (zip summaries ids)
            = map snd (zip summaries ids)"
    by (rule map_cong) auto
  have z2: "map (page_content \<circ> (\<lambda>(summary, k). \<lparr> page_content = summary, doc_id = k,
                 content_type = ctype, image_fields = None \<rparr>)) (zip summaries ids)
            = map fst (zip summaries ids)"
    by (rule map_cong) auto
  show "length summaries \<le> length ids" by (rule len)
  show "map doc_id (vectorstore rag') = map doc_id (vectorstore rag) @ take (length summaries) ids"
    using len by (simp add: r1 r' z1 map_snd_zip_take)
  show "map page_content (vectorstore rag') = map page_content (vectorstore rag) @ summaries"
    using len by (simp add: r1 r' z2 map_fst_zip_take)
  show "store rag' = (store rag)(ids [\<mapsto>] map RawChunk raws)"
    by (simp add: r1 r')
  show "RAGService.image_metadata rag' = RAGService.image_metadata rag"
    by (simp add: r1 r')
qed

lemma add_summaries_ok:
  assumes "add_documents_error srv (length (vectorstore rag)) = None"
      and "length summaries \<le> length ids"
  shows "\<exists>rag'. add_summaries srv ctype ids summaries raws rag = Inr rag'"
  using assms by (simp add: add_summaries_def add_documents_ok)

lemma add_images_from_Inr:
  "add_images_from srv p metas ids i descs rag = Inr rag' \<Longrightarrow>
     map doc_id (vectorstore rag') = map doc_id (vectorstore rag) @ map ((!) ids) [i ..< i + length descs]
   \<and> map page_content (vectorstore rag') = map page_content (vectorstore rag) @ descs
   \<and> dom (store rag') = dom (store rag) \<union> (!) ids ` {i ..< i + length descs}
   \<and> (descs \<noteq> [] \<longrightarrow> i + length descs \<le> length ids)
   \<and> map rag_image_meta.description (RAGService.image_metadata rag') =
       map rag_image_meta.description (RAGService.image_metadata rag) @ descs"
proof (induction descs arbitrary: i rag)
  case Nil
  then show ?case by simp
next
  case (Cons desc rest)
  from Cons.prems have i: "i < length ids"
    by (auto simp: Let_def split: if_splits prod.splits)
  from Cons.prems obtain rag3 where
    rec: "add_images_from srv p metas ids (Suc i) rest rag3 = Inr rag'"
    and v3: "map doc_id (vectorstore rag3) = map doc_id (vectorstore rag) @ [ids ! i]"
    and c3: "map page_content (vectorstore rag3) = map page_content (vectorstore rag) @ [desc]"
    and s3: "dom (store rag3) = insert (ids ! i) (dom (store rag))"
    and m3: "map rag_image_meta.description (RAGService.image_metadata rag3) =
               map rag_image_meta.description (RAGService.image_metadata rag) @ [desc]"
    by (auto simp: Let_def split: if_splits prod.splits sum.splits dest!: add_documents_Inr)
  from Cons.IH [OF rec] have
    ih1: "map doc_id (vectorstore rag') = map doc_id (vectorstore rag3) @ map ((!) ids) [Suc i ..< Suc i + length rest]"
    and ih2: "map page_content (vectorstore rag') = map page_content (vectorstore rag3) @ rest"
    and ih3: "dom (store rag') = dom (store rag3) \<union> (!) ids ` {Suc i ..< Suc i + length rest}"
    and ih4: "rest \<noteq> [] \<longrightarrow> Suc i + length rest \<le> length ids"
    and ih5: "map rag_image_meta.description (RAGService.image_metadata rag') =
       map rag_image_meta.description (RAGService.image_metadata rag3) @ rest"
    by simp_all
  have up: "[i ..< i + length (desc # rest)] = i # [Suc i ..< Suc i + length rest]"
    by (simp add: upt_rec)
  have st: "{i ..< i + length (desc # rest)} = insert i {Suc i ..< Suc i + length rest}"
    by auto
  show ?case
    unfolding up st using i ih4
    by (cases "rest = []") (simp_all add: ih1 ih2 ih3 ih5 v3 c3 s3 m3)
qed

lemma add_images_from_ok:
  assumes "\<And>n. add_documents_error srv n = None" and "i + length descs \<le> length ids"
  shows "\<exists>rag'. add_images_from srv p metas ids i descs rag = Inr rag'"
  using assms(2)
proof (induction descs arbitrary: i rag)
  case Nil
  then show ?case by simp
next
  case (Cons desc rest)
  then have "i < length ids" "Suc i + length rest \<le> length ids" by simp_all
  with Cons.IH show ?case
    by (simp add: Let_def add_documents_def assms(1) split: prod.splits)
qed


lemma length_fresh_ids [simp]: "length (fresh_ids srv off n) = n"
  by (simp add: fresh_ids_def)

lemma add_summaries_stage:
  assumes "(if summaries \<noteq> [] then add_summaries srv ctype (fresh_ids srv off (length raws)) summaries raws rag
            else Inr rag) = Inr rag1"
      and "length summaries = length raws"
  shows "map doc_id (vectorstore rag1) = map doc_id (vectorstore rag) @ fresh_ids srv off (length raws)"
    and "map page_content (vectorstore rag1) = map page_content (vectorstore rag) @ summaries"
    and "dom (store rag1) = dom (store rag) \<union> set (fresh_ids srv off (length raws))"
    and "RAGService.image_metadata rag1 = RAGService.image_metadata rag"
proof -
  show "map doc_id (vectorstore rag1) = map doc_id (vectorstore rag) @ fresh_ids srv off (length raws)"
  proof (cases "summaries = []")
    case True
    with assms show ?thesis by (simp add: fresh_ids_def)
  next
    case False
    with assms(1) have "add_summaries srv ctype (fresh_ids srv off (length raws)) summaries raws rag = Inr rag1"
      by simp
    from add_summaries_Inr(2) [OF this] assms(2) show ?thesis by simp
  qed
  show "map page_content (vectorstore rag1) = map page_content (vectorstore rag) @ summaries"
  proof (cases "summaries = []")
    case True
    with assms show ?thesis by simp
  next
    case False
    with assms(1) have "add_summaries srv ctype (fresh_ids srv off (length raws)) summaries raws rag = Inr rag1"
      by simp
    from add_summaries_Inr(3) [OF this] show ?thesis .
  qed
  show "dom (store rag1) = dom (store rag) \<union> set (fresh_ids srv off (length raws))"
  proof (cases "summaries = []")
    case True
    with assms show ?thesis by (simp add: fresh_ids_def)
  next
    case False
    with assms(1) have "add_summaries srv ctype (fresh_ids srv off (length raws)) summaries raws rag = Inr rag1"
      by simp
    from add_summaries_Inr(4) [OF this] show ?thesis by (auto simp: dom_map_upds)
  qed
  show "RAGService.image_metadata rag1 = RAGService.image_metadata rag"
  proof (cases "summaries = []")
    case True
    with assms show ?thesis by simp
  next
    case False
    with assms(1) have "add_summaries srv ctype (fresh_ids srv off (length raws)) summaries raws rag = Inr rag1"
      by simp
    from add_summaries_Inr(5) [OF this] show ?thesis .
  qed
qed

lemma build_body_Inr:
  assumes b: "build_body srv p rag = Inr rag'"
      and lt: "length (text_summaries p) = length (DocumentProcessor.texts p)"
      and ltb: "length (table_summaries p) = length (DocumentProcessor.tables p)"
  shows "\<exists>keys. map doc_id (vectorstore rag') = map doc_id (vectorstore rag) @ keys
               \<and> dom (store rag') = dom (store rag) \<union> set keys"
    and "map page_content (vectorstore rag') =
           map page_content (vectorstore rag) @ text_summaries p @ table_summaries p @
             (if DocumentProcessor.image_metadata p = None then [] else image_descriptions p)"
    and "DocumentProcessor.image_metadata p \<noteq> None \<Longrightarrow> image_descriptions p \<noteq> [] \<Longrightarrow>
           length (image_descriptions p) \<le> length (DocumentProcessor.images p)"
    and "map rag_image_meta.description (RAGService.image_metadata rag') =
           map rag_image_meta.description (RAGService.image_metadata rag) @
             (if DocumentProcessor.image_metadata p = None then [] else image_descriptions p)"
proof -
  define nt where "nt = length (DocumentProcessor.texts p)"
  define ntab where "ntab = length (DocumentProcessor.tables p)"
  have n1: "(if text_summaries p \<noteq> [] then length (DocumentProcessor.texts p) else 0) = nt"
    using lt by (auto simp: nt_def)
  have n2: "(if table_summaries p \<noteq> [] then length (DocumentProcessor.tables p) else 0) = ntab"
    using ltb by (auto simp: ntab_def)
  from b obtain rag1 rag2 where
    s1: "(if text_summaries p \<noteq> [] then add_summaries srv ''text'' (fresh_ids srv 0 (length (DocumentProcessor.texts p)))
            (text_summaries p) (DocumentProcessor.texts p) rag else Inr rag) = Inr rag1"
    and s2: "(if table_summaries p \<noteq> [] then add_summaries srv ''table'' (fresh_ids srv nt (length (DocumentProcessor.tables p)))
            (table_summaries p) (DocumentProcessor.tables p) rag1 else Inr rag1) = Inr rag2"
    and s3: "(case DocumentProcessor.image_metadata p of
                None \<Rightarrow> Inr rag2
              | Some metas \<Rightarrow>
                  if image_descriptions p = [] then Inr rag2
                  else add_images_from srv p metas
                         (fresh_ids srv (nt + ntab) (length (DocumentProcessor.images p)))
                         0 (image_descriptions p) rag2) = Inr rag'"
    unfolding build_body_def Let_def n1 n2
    by (auto split: sum.splits)
  note t = add_summaries_stage [OF s1 lt]
  note tb = add_summaries_stage [OF s2 ltb]
  define ikeys where "ikeys =
     (if DocumentProcessor.image_metadata p = None \<or> image_descriptions p = [] then []
      else map ((!) (fresh_ids srv (nt + ntab) (length (DocumentProcessor.images p))))
             [0 ..< length (image_descriptions p)])"
  have img: "map doc_id (vectorstore rag') = map doc_id (vectorstore rag2) @ ikeys
     \<and> map page_content (vectorstore rag') = map page_content (vectorstore rag2) @
           (if DocumentProcessor.image_metadata p = None then [] else image_descriptions p)
     \<and> dom (store rag') = dom (store rag2) \<union> set ikeys
     \<and> (DocumentProcessor.image_metadata p \<noteq> None \<longrightarrow> image_descriptions p \<noteq> [] \<longrightarrow>
           length (image_descriptions p) \<le> length (DocumentProcessor.images p))
     \<and> map rag_image_meta.description (RAGService.image_metadata rag') =
           map rag_image_meta.description (RAGService.image_metadata rag2) @
             (if DocumentProcessor.image_metadata p = None then [] else image_descriptions p)"
  proof (cases "DocumentProcessor.image_metadata p")
    case None
    with s3 show ?thesis by (simp add: ikeys_def)
  next
    case (Some metas)
    show ?thesis
    proof (cases "image_descriptions p = []")
      case True
      with Some s3 show ?thesis by (simp add: ikeys_def)
    next
      case False
      with Some s3 have "add_images_from srv p metas
                         (fresh_ids srv (nt + ntab) (length (DocumentProcessor.images p)))
                         0 (image_descriptions p) rag2 = Inr rag'" by simp
      from add_images_from_Inr [OF this] Some False show ?thesis
        by (simp add: ikeys_def)
    qed
  qed
  show "\<exists>keys. map doc_id (vectorstore rag') = map doc_id (vectorstore rag) @ keys
               \<and> dom (store rag') = dom (store rag) \<union> set keys"
    by (rule exI [of _ "fresh_ids srv 0 (length (DocumentProcessor.texts p)) @
           fresh_ids srv nt (length (DocumentProcessor.tables p)) @ ikeys"])
       (use img t(1,3) tb(1,3) in auto)
  show "map page_content (vectorstore rag') =
           map page_content (vectorstore rag) @ text_summaries p @ table_summaries p @
             (if DocumentProcessor.image_metadata p = None then [] else image_descriptions p)"
    using img t(2) tb(2) by simp
  show "DocumentProcessor.image_metadata p \<noteq> None \<Longrightarrow> image_descriptions p \<noteq> [] \<Longrightarrow>
           length (image_descriptions p) \<le> length (DocumentProcessor.images p)"
    using img by simp
  show "map rag_image_meta.description (RAGService.image_metadata rag') =
           map rag_image_meta.description (RAGService.image_metadata rag) @
             (if DocumentProcessor.image_metadata p = None then [] else image_descriptions p)"
    using img t(4) tb(4) by simp
qed


section \<open>Properties of an ingestion run\<close>

lemma extract_pdf_content_Inr:
  assumes "extract_pdf_content srv fpath p = Inr (cnt, p1)"
  shows "cnt = \<lparr> elements_count.texts = length (DocumentProcessor.texts p1),
                 tables = length (DocumentProcessor.tables p1),
                 images = length (DocumentProcessor.images p1) \<rparr>"
    and "image_descriptions p1 = image_descriptions p"
    and "DocumentProcessor.image_metadata p1 = DocumentProcessor.image_metadata p"
    and "doc_folder p1 = doc_folder p"
    and "\<exists>cs. partition_pdf srv fpath = Inr cs \<and> DocumentProcessor.images p1 = extract_images_base64 cs"
  using assms by (auto simp: extract_pdf_content_def Let_def split: sum.splits)

lemma process_and_save_images_fields [simp]:
  "doc_folder (process_and_save_images st srv p) = doc_folder p"
  "DocumentProcessor.texts (process_and_save_images st srv p) = DocumentProcessor.texts p"
  "DocumentProcessor.tables (process_and_save_images st srv p) = DocumentProcessor.tables p"
  "DocumentProcessor.images (process_and_save_images st srv p) = DocumentProcessor.images p"
  by (simp_all add: process_and_save_images_def)

lemma process_and_save_images_lengths:
  assumes "image_descriptions p = []" and "DocumentProcessor.image_metadata p = None"
  shows "length (DocumentProcessor.images p) \<le> length (image_descriptions (process_and_save_images st srv p))"
    and "DocumentProcessor.images p = [] \<Longrightarrow>
           DocumentProcessor.image_metadata (process_and_save_images st srv p) = None"
    and "DocumentProcessor.images p \<noteq> [] \<Longrightarrow>
           DocumentProcessor.image_metadata (process_and_save_images st srv p) \<noteq> None"
proof -
  show "length (DocumentProcessor.images p) \<le> length (image_descriptions (process_and_save_images st srv p))"
    by (simp add: process_and_save_images_def length_descriptions_loop)
  show "DocumentProcessor.images p = [] \<Longrightarrow>
           DocumentProcessor.image_metadata (process_and_save_images st srv p) = None"
    using assms by (simp add: process_and_save_images_def)
  show "DocumentProcessor.images p \<noteq> [] \<Longrightarrow>
           DocumentProcessor.image_metadata (process_and_save_images st srv p) \<noteq> None"
    using metadata_loop_Some [of "p\<lparr>DocumentProcessor.image_metadata := Some []\<rparr>" "[]" st srv 0
            "DocumentProcessor.images p"]
    by (auto simp: process_and_save_images_def)
qed

lemma create_summaries_Inr:
  assumes "create_summaries srv p = Inr p'"
  shows "length (text_summaries p') = length (DocumentProcessor.texts p)"
    and "length (table_summaries p') = length (DocumentProcessor.tables p)"
    and "\<exists>ts tbs. p' = p\<lparr> text_summaries := ts, table_summaries := tbs \<rparr>"
  using assms
  by (auto simp: create_summaries_def split: sum.splits if_splits dest: batch_Inr_length)

lemma processor_process_document_Inr:
  assumes run: "processor_process_document st srv fpath p = Inr (cnt, p2)"
      and d0: "image_descriptions p = []" and m0: "DocumentProcessor.image_metadata p = None"
  shows "cnt = \<lparr> elements_count.texts = length (DocumentProcessor.texts p2),
                 tables = length (DocumentProcessor.tables p2),
                 images = length (DocumentProcessor.images p2) \<rparr>"
    and "length (text_summaries p2) = length (DocumentProcessor.texts p2)"
    and "length (table_summaries p2) = length (DocumentProcessor.tables p2)"
    and "length (DocumentProcessor.images p2) \<le> length (image_descriptions p2)"
    and "DocumentProcessor.images p2 = [] \<Longrightarrow> DocumentProcessor.image_metadata p2 = None"
    and "DocumentProcessor.images p2 \<noteq> [] \<Longrightarrow> DocumentProcessor.image_metadata p2 \<noteq> None"
proof -
  from run obtain p1 where
    ex: "extract_pdf_content srv fpath p = Inr (cnt, p1)"
    and cs: "create_summaries srv (process_and_save_images st srv p1) = Inr p2"
    by (auto simp: processor_process_document_def split: sum.splits prod.splits)
  note e = extract_pdf_content_Inr [OF ex]
  have d1: "image_descriptions p1 = []" and m1: "DocumentProcessor.image_metadata p1 = None"
    using e d0 m0 by simp_all
  note l = process_and_save_images_lengths [OF d1 m1, of st srv]
  from create_summaries_Inr(3) [OF cs] obtain ts tbs where
    p2: "p2 = (process_and_save_images st srv p1)\<lparr> text_summaries := ts, table_summaries := tbs \<rparr>"
    by blast
  show "cnt = \<lparr> elements_count.texts = length (DocumentProcessor.texts p2),
                 tables = length (DocumentProcessor.tables p2),
                 images = length (DocumentProcessor.images p2) \<rparr>"
    using e(1) by (simp add: p2)
  show "length (text_summaries p2) = length (DocumentProcessor.texts p2)"
    using create_summaries_Inr(1) [OF cs] by (simp add: p2)
  show "length (table_summaries p2) = length (DocumentProcessor.tables p2)"
    using create_summaries_Inr(2) [OF cs] by (simp add: p2)
  show "length (DocumentProcessor.images p2) \<le> length (image_descriptions p2)"
    using l(1) by (simp add: p2)
  show "DocumentProcessor.images p2 = [] \<Longrightarrow> DocumentProcessor.image_metadata p2 = None"
    using l(2) by (simp add: p2)
  show "DocumentProcessor.images p2 \<noteq> [] \<Longrightarrow> DocumentProcessor.image_metadata p2 \<noteq> None"
    using l(3) by (simp add: p2)
qed

lemma new_DocumentProcessor_Inr:
  "new_DocumentProcessor st srv did = Inr p \<Longrightarrow>
     image_descriptions p = [] \<and> DocumentProcessor.image_metadata p = None
   \<and> DocumentProcessor.document_id p = did"
  by (auto simp: new_DocumentProcessor_def Let_def split: option.splits)

lemma new_RAGService_Inr:
  "new_RAGService srv did = Inr rag \<Longrightarrow>
     vectorstore rag = [] \<and> store rag = Map.empty \<and> RAGService.image_metadata rag = []
   \<and> RAGService.document_id rag = did"
  by (auto simp: new_RAGService_def setup_vectorstore_def split: option.splits sum.splits if_splits)

lemma ingest_Inr:
  assumes "ingest st srv did fpath = Inr (cnt, rag)"
  shows "elements_count.texts cnt + elements_count.tables cnt + elements_count.images cnt = length (vectorstore rag)"
    and "index_consistent rag"
proof -
  from assms obtain p0 p rag0 where
    p0: "new_DocumentProcessor st srv did = Inr p0"
    and pp: "processor_process_document st srv fpath p0 = Inr (cnt, p)"
    and r0: "new_RAGService srv did = Inr rag0"
    and bd: "build_body srv p rag0 = Inr rag"
    by (auto simp: ingest_def build_vector_database_def split: sum.splits prod.splits)
  from new_DocumentProcessor_Inr [OF p0] have d0: "image_descriptions p0 = []"
    and m0: "DocumentProcessor.image_metadata p0 = None" by simp_all
  note pr = processor_process_document_Inr [OF pp d0 m0]
  note b = build_body_Inr [OF bd pr(2) pr(3)]
  from new_RAGService_Inr [OF r0] have e0: "vectorstore rag0 = []" "store rag0 = Map.empty"
    by simp_all
  have imgs: "(if DocumentProcessor.image_metadata p = None then 0 else length (image_descriptions p))
                = length (DocumentProcessor.images p)"
  proof (cases "DocumentProcessor.images p = []")
    case True
    with pr(5) show ?thesis by simp
  next
    case False
    with pr(6) have m: "DocumentProcessor.image_metadata p \<noteq> None" by simp
    from False pr(4) have "image_descriptions p \<noteq> []" by auto
    from b(3) [OF m this] pr(4) m show ?thesis by auto
  qed
  have "length (vectorstore rag) = length (map page_content (vectorstore rag))" by simp
  also have "\<dots> = length (DocumentProcessor.texts p) + length (DocumentProcessor.tables p)
                   + length (DocumentProcessor.images p)"
    unfolding b(2) using imgs pr(2,3) e0 by (auto split: if_splits)
  finally show "elements_count.texts cnt + elements_count.tables cnt + elements_count.images cnt = length (vectorstore rag)"
    by (simp add: pr(1))
  from b(1) obtain keys where "map doc_id (vectorstore rag) = map doc_id (vectorstore rag0) @ keys"
    and "dom (store rag) = dom (store rag0) \<union> set keys" by blast
  then have "set (map doc_id (vectorstore rag)) = dom (store rag)"
    using e0 by simp
  then show "index_consistent rag"
    by (simp add: index_consistent_def)
qed

subsection \<open>The pauses of the image loop\<close>



subsection \<open>A run in which every collaborator but the vision service succeeds\<close>

lemma process_and_save_images_ok:
  assumes ok: "\<forall>(j, b) \<in> set (enumerate 0 (DocumentProcessor.images p)). \<not> image_raises st srv p j b"
      and d0: "image_descriptions p = []" and m0: "DocumentProcessor.image_metadata p = None"
  shows "image_descriptions (process_and_save_images st srv p) =
           map (\<lambda>(j, b). describe_image srv j b) (enumerate 0 (DocumentProcessor.images p))"
    and "DocumentProcessor.image_metadata (process_and_save_images st srv p) \<noteq> None \<Longrightarrow>
           length (image_descriptions (process_and_save_images st srv p))
             \<le> length (DocumentProcessor.images p)"
proof -
  show "image_descriptions (process_and_save_images st srv p) =
           map (\<lambda>(j, b). describe_image srv j b) (enumerate 0 (DocumentProcessor.images p))"
  proof (cases "DocumentProcessor.images p = []")
    case True
    with d0 show ?thesis by (simp add: process_and_save_images_def)
  next
    case False
    have "image_raises st srv (p\<lparr>DocumentProcessor.image_metadata := Some []\<rparr>) = image_raises st srv p"
      by (rule image_raises_cong) simp
    with ok have ok': "\<forall>(j, b) \<in> set (enumerate 0 (DocumentProcessor.images p)).
        \<not> image_raises st srv (p\<lparr>DocumentProcessor.image_metadata := Some []\<rparr>) j b"
      by simp
    from loop_ok [OF ok', of "[]"] d0 False show ?thesis
      by (simp add: process_and_save_images_def)
  qed
  then show "length (image_descriptions (process_and_save_images st srv p))
             \<le> length (DocumentProcessor.images p)"
    by simp
qed

lemma create_summaries_ok:
  assumes "\<And>t. \<not> isl (text_chain srv t)" and "\<And>t. \<not> isl (table_chain srv t)"
  shows "create_summaries srv p =
           Inr (p\<lparr> text_summaries := map (\<lambda>c. projr (text_chain srv (chunk_text c))) (DocumentProcessor.texts p),
                   table_summaries := map (\<lambda>c. projr (table_chain srv (text_as_html c))) (DocumentProcessor.tables p) \<rparr>)"
  by (simp add: create_summaries_def batch_total [OF assms(1)] batch_total [OF assms(2)] comp_def)

lemma build_body_ok:
  assumes adds: "\<And>n. add_documents_error srv n = None"
      and lt: "length (text_summaries p) = length (DocumentProcessor.texts p)"
      and ltb: "length (table_summaries p) = length (DocumentProcessor.tables p)"
      and li: "DocumentProcessor.image_metadata p \<noteq> None \<Longrightarrow>
                 length (image_descriptions p) \<le> length (DocumentProcessor.images p)"
  shows "\<exists>rag'. build_body srv p rag = Inr rag'"
proof -
  obtain rag1 where s1: "(if text_summaries p \<noteq> []
               then add_summaries srv ''text'' (fresh_ids srv 0 (length (DocumentProcessor.texts p)))
                      (text_summaries p) (DocumentProcessor.texts p) rag
               else Inr rag) = Inr rag1"
    using add_summaries_ok [of srv rag "text_summaries p"
        "fresh_ids srv 0 (length (DocumentProcessor.texts p))" "''text''" "DocumentProcessor.texts p"]
      adds lt by (cases "text_summaries p = []") auto
  obtain rag2 where s2: "(if table_summaries p \<noteq> []
                   then add_summaries srv ''table''
                          (fresh_ids srv (if text_summaries p \<noteq> [] then length (DocumentProcessor.texts p) else 0)
                             (length (DocumentProcessor.tables p)))
                          (table_summaries p) (DocumentProcessor.tables p) rag1
                   else Inr rag1) = Inr rag2"
    using add_summaries_ok [of srv rag1 "table_summaries p"
        "fresh_ids srv (if text_summaries p \<noteq> [] then length (DocumentProcessor.texts p) else 0)
           (length (DocumentProcessor.tables p))" "''table''" "DocumentProcessor.tables p"]
      adds ltb by (cases "table_summaries p = []") auto
  show ?thesis
  proof (cases "DocumentProcessor.image_metadata p")
    case None
    with s1 s2 show ?thesis by (simp add: build_body_def Let_def)
  next
    case (Some metas)
    with li have "0 + length (image_descriptions p) \<le> length (fresh_ids srv
        ((if text_summaries p \<noteq> [] then length (DocumentProcessor.texts p) else 0)
          + (if table_summaries p \<noteq> [] then length (DocumentProcessor.tables p) else 0))
        (length (DocumentProcessor.images p)))"
      by simp
    from add_images_from_ok [OF adds this, of p metas rag2] Some s1 s2 show ?thesis
      by (auto simp: build_body_def Let_def)
  qed
qed

lemma ingest_ok:
  assumes dir: "mkdir srv (path_join (IMAGES_FOLDER st) did) = None"
      and models: "setup_models srv = None"
      and parsed: "partition_pdf srv fpath = Inr cs"
      and saved: "\<And>i pth b. write_image srv i pth b = None"
      and batch_size: "MAX_IMAGES_PER_REQUEST st \<noteq> 0"
      and texts_ok: "\<And>t. \<not> isl (text_chain srv t)"
      and tables_ok: "\<And>t. \<not> isl (table_chain srv t)"
      and qdrant: "qdrant_client_ready srv" "\<And>c. recreate_collection srv c = None"
                  "setup_rag_chain srv = None"
      and adds: "\<And>n. add_documents_error srv n = None"
  shows "\<exists>rag. ingest st srv did fpath =
            Inr (\<lparr> elements_count.texts =
                     length (filter (\<lambda>c. \<not> str_contains ''Table'' (chunk_type c)
                                        \<and> str_contains ''CompositeElement'' (chunk_type c)) cs),
                   tables = length (filter (\<lambda>c. str_contains ''Table'' (chunk_type c)) cs),
                   images = length (extract_images_base64 cs) \<rparr>, rag)
          \<and> map page_content (vectorstore rag) =
               map (\<lambda>c. projr (text_chain srv (chunk_text c)))
                   (filter (\<lambda>c. \<not> str_contains ''Table'' (chunk_type c)
                                \<and> str_contains ''CompositeElement'' (chunk_type c)) cs)
               @ map (\<lambda>c. projr (table_chain srv (text_as_html c)))
                   (filter (\<lambda>c. str_contains ''Table'' (chunk_type c)) cs)
               @ map (\<lambda>(i, b). describe_image srv i b) (enumerate 0 (extract_images_base64 cs))
          \<and> map rag_image_meta.description (RAGService.image_metadata rag) =
               map (\<lambda>(i, b). describe_image srv i b) (enumerate 0 (extract_images_base64 cs))"
proof -
  define txts where "txts = filter (\<lambda>c. \<not> str_contains ''Table'' (chunk_type c)
                                        \<and> str_contains ''CompositeElement'' (chunk_type c)) cs"
  define tbls where "tbls = filter (\<lambda>c. str_contains ''Table'' (chunk_type c)) cs"
  define imgs where "imgs = extract_images_base64 cs"
  define cnt where "cnt = \<lparr> elements_count.texts = length txts, tables = length tbls,
                            images = length imgs \<rparr>"
  obtain p0 where p0: "new_DocumentProcessor st srv did = Inr p0"
    and d0: "image_descriptions p0 = []" and m0: "DocumentProcessor.image_metadata p0 = None"
    using dir models by (simp add: new_DocumentProcessor_def Let_def)
  define p1 where "p1 = p0\<lparr> chunks := cs, DocumentProcessor.tables := tbls,
                      DocumentProcessor.texts := txts, DocumentProcessor.images := imgs \<rparr>"
  have ex: "extract_pdf_content srv fpath p0 = Inr (cnt, p1)"
    using parsed by (simp add: extract_pdf_content_def Let_def cnt_def p1_def txts_def tbls_def imgs_def)
  have d1: "image_descriptions p1 = []" and m1: "DocumentProcessor.image_metadata p1 = None"
    and i1: "DocumentProcessor.images p1 = imgs" and t1: "DocumentProcessor.texts p1 = txts"
    and tb1: "DocumentProcessor.tables p1 = tbls"
    using d0 m0 by (simp_all add: p1_def)
  have noraise: "\<forall>(j, b) \<in> set (enumerate 0 (DocumentProcessor.images p1)). \<not> image_raises st srv p1 j b"
    using saved batch_size by (simp add: image_raises_def)
  define p1' where "p1' = process_and_save_images st srv p1"
  note im = process_and_save_images_ok [OF noraise d1 m1, folded p1'_def]
  define p2 where "p2 = p1'\<lparr> text_summaries := map (\<lambda>c. projr (text_chain srv (chunk_text c))) txts,
                   table_summaries := map (\<lambda>c. projr (table_chain srv (text_as_html c))) tbls \<rparr>"
  have cs: "create_summaries srv p1' = Inr p2"
    using create_summaries_ok [OF texts_ok tables_ok, of p1']
    by (simp add: p2_def p1'_def t1 tb1)
  have pp: "processor_process_document st srv fpath p0 = Inr (cnt, p2)"
    using ex cs by (simp add: processor_process_document_def p1'_def)
  obtain rag0 where r0: "new_RAGService srv did = Inr rag0"
    and e0: "vectorstore rag0 = []" "RAGService.image_metadata rag0 = []"
    using qdrant by (simp add: new_RAGService_def setup_vectorstore_def)
  have lt: "length (text_summaries p2) = length (DocumentProcessor.texts p2)"
    and ltb: "length (table_summaries p2) = length (DocumentProcessor.tables p2)"
    by (simp_all add: p2_def p1'_def t1 tb1)
  have li: "DocumentProcessor.image_metadata p2 \<noteq> None \<Longrightarrow>
                 length (image_descriptions p2) \<le> length (DocumentProcessor.images p2)"
    using im(2) by (simp add: p2_def p1'_def i1)
  from build_body_ok [OF adds lt ltb li, of rag0] obtain rag where bd: "build_body srv p2 rag0 = Inr rag"
    by blast
  note b = build_body_Inr [OF bd lt ltb]
  have descs: "(if DocumentProcessor.image_metadata p2 = None then [] else image_descriptions p2)
                 = map (\<lambda>(i, b). describe_image srv i b) (enumerate 0 imgs)"
  proof (cases "DocumentProcessor.image_metadata p2 = None")
    case True
    then have "imgs = []"
      using process_and_save_images_lengths(3) [OF d1 m1, of st srv]
      by (auto simp: p2_def p1'_def i1)
    with True show ?thesis by simp
  next
    case False
    then show ?thesis using im(1) by (auto simp: p2_def i1)
  qed
  have "ingest st srv did fpath = Inr (cnt, rag)"
    using p0 pp r0 bd by (simp add: ingest_def build_vector_database_def)
  moreover have "map page_content (vectorstore rag) =
       map (\<lambda>c. projr (text_chain srv (chunk_text c))) txts
       @ map (\<lambda>c. projr (table_chain srv (text_as_html c))) tbls
       @ map (\<lambda>(i, b). describe_image srv i b) (enumerate 0 imgs)"
    using b(2) descs e0 by (simp add: p2_def)
  moreover have "map rag_image_meta.description (RAGService.image_metadata rag) =
       map (\<lambda>(i, b). describe_image srv i b) (enumerate 0 imgs)"
    using b(4) descs e0 by simp
  ultimately show ?thesis
    unfolding cnt_def txts_def tbls_def imgs_def by blast
qed

section \<open>Properties of sequences of operations\<close>

lemma upload_ids_append: "upload_ids (evs @ evs') = upload_ids evs @ upload_ids evs'"
  by (induction evs rule: upload_ids.induct) simp_all

lemma run_Nil [simp]: "run st [] = init_state"
  by (simp add: run_def)

lemma run_snoc [simp]: "run st (evs @ [ev]) = step st (run st evs) ev"
  by (simp add: run_def)

lemma map_fst_remove1:
  "map_of xs d = Some f \<Longrightarrow> map fst (remove1 (d, f) xs) = remove1 d (map fst xs)"
  by (induction xs) (auto split: if_splits)

lemma map_of_in_fst: "map_of xs d = Some f \<Longrightarrow> d \<in> set (map fst xs)"
  by (induction xs) (auto split: if_splits)

subsection \<open>What each handler does to the observations\<close>

lemma upload_document_obs:
  "status_of (snd (upload_document st io file s)) d = status_of s d
     \<or> d = uuid4 io \<and> status_of (snd (upload_document st io file s)) d = Some PENDING"
  "tasks (snd (upload_document st io file s)) = tasks s"
  "rag_services (snd (upload_document st io file s)) = rag_services s"
  "dom (document_store (snd (upload_document st io file s))) \<subseteq> insert (uuid4 io) (dom (document_store s))"
  by (auto simp: upload_document_def status_of_def tasks_def Let_def split: option.splits)

lemma process_document_obs:
  "status_of (snd (process_document did s)) d =
     (if d = did \<and> (status_of s did = Some PENDING \<or> status_of s did = Some FAILED)
      then Some PROCESSING else status_of s d)"
  "tasks (snd (process_document did s)) =
     (if status_of s did = Some PENDING \<or> status_of s did = Some FAILED
      then background_tasks s @ [did] @ map fst (running_tasks s) else tasks s)"
  "rag_services (snd (process_document did s)) = rag_services s"
  "dom (document_store (snd (process_document did s))) = dom (document_store s)"
proof -
  show "status_of (snd (process_document did s)) d =
     (if d = did \<and> (status_of s did = Some PENDING \<or> status_of s did = Some FAILED)
      then Some PROCESSING else status_of s d)"
    by (cases "document_store s did"; cases "doc_info.status (the (document_store s did))")
       (simp_all add: process_document_def status_of_def)
  show "tasks (snd (process_document did s)) =
     (if status_of s did = Some PENDING \<or> status_of s did = Some FAILED
      then background_tasks s @ [did] @ map fst (running_tasks s) else tasks s)"
    by (cases "document_store s did"; cases "doc_info.status (the (document_store s did))")
       (simp_all add: process_document_def status_of_def tasks_def)
  show "rag_services (snd (process_document did s)) = rag_services s"
    by (simp add: process_document_def split: option.splits)
  show "dom (document_store (snd (process_document did s))) = dom (document_store s)"
    by (auto simp: process_document_def split: option.splits if_splits)
qed

lemma delete_document_obs:
  "status_of (snd (delete_document fs_error did s)) d = status_of s d
     \<or> d = did \<and> status_of (snd (delete_document fs_error did s)) d = None"
  "tasks (snd (delete_document fs_error did s)) = tasks s"
  "rag_services (snd (delete_document fs_error did s)) d = rag_services s d
     \<or> rag_services (snd (delete_document fs_error did s)) d = None"
  "dom (document_store (snd (delete_document fs_error did s))) \<subseteq> dom (document_store s)"
  "dom (rag_services (snd (delete_document fs_error did s))) \<subseteq> dom (rag_services s)"
  by (auto simp: delete_document_def status_of_def tasks_def split: option.splits if_splits)

lemma start_task_idle: "did \<notin> set (background_tasks s) \<Longrightarrow> start_task did s = s"
  by (simp add: start_task_def)

lemma start_task_obs:
  assumes "did \<in> set (background_tasks s)"
  shows "status_of (start_task did s) d =
           (if d = did \<and> status_of s did \<noteq> None then Some PROCESSING else status_of s d)"
    and "tasks (start_task did s) =
           remove1 did (background_tasks s) @ map fst (running_tasks s)
             @ (if status_of s did \<noteq> None then [did] else [])"
    and "rag_services (start_task did s) = rag_services s"
    and "dom (document_store (start_task did s)) = dom (document_store s)"
  using assms
  by (auto simp: start_task_def background_start_def background_except_def status_of_def
        tasks_def Let_def split: option.splits if_splits)

lemma finish_task_idle: "map_of (running_tasks s) did = None \<Longrightarrow> finish_task st srv elapsed did s = s"
  by (simp add: finish_task_def)

lemma finish_task_obs:
  assumes "map_of (running_tasks s) did = Some fpath"
  shows "status_of (finish_task st srv elapsed did s) d =
           (if d = did \<and> status_of s did \<noteq> None
            then (if isl (ingest st srv did fpath) then Some FAILED else Some COMPLETED)
            else status_of s d)"
    and "tasks (finish_task st srv elapsed did s) =
           background_tasks s @ remove1 did (map fst (running_tasks s))"
    and "rag_services (finish_task st srv elapsed did s) =
           (case ingest st srv did fpath of
              Inl e \<Rightarrow> rag_services s
            | Inr (cnt, rag) \<Rightarrow> (rag_services s)(did \<mapsto> rag))"
    and "dom (document_store (finish_task st srv elapsed did s)) = dom (document_store s)"
  using assms
  by (auto simp: finish_task_def background_finish_def background_except_def status_of_def
        tasks_def Let_def map_fst_remove1 split: option.splits if_splits sum.splits prod.splits)

subsection \<open>The invariants hold in every reachable state\<close>

lemma task_inv_step:
  assumes inv: "task_inv s"
      and fresh: "\<And>io file. ev = Upload io file \<Longrightarrow> uuid4 io \<notin> set (tasks s)"
  shows "task_inv (step st s ev)"
proof (cases ev)
  case (Upload io upl)
  from fresh [OF Upload] inv upload_document_obs(1) [of st io upl s] show ?thesis
    unfolding Upload task_inv_def by (simp add: upload_document_obs(2)) metis
next
  case (Process did)
  show ?thesis
  proof (cases "status_of s did = Some PENDING \<or> status_of s did = Some FAILED")
    case True
    with inv have "did \<notin> set (tasks s)"
      by (auto simp: task_inv_def)
    then have nt: "did \<notin> set (background_tasks s)" "did \<notin> set (map fst (running_tasks s))"
      by (simp_all add: tasks_def)
    from True have ts: "tasks (snd (process_document did s)) =
        background_tasks s @ [did] @ map fst (running_tasks s)"
      by (simp add: process_document_obs(2))
    from inv have "distinct (background_tasks s @ map fst (running_tasks s))"
      "\<forall>d \<in> set (background_tasks s) \<union> set (map fst (running_tasks s)).
         status_of s d \<in> {None, Some PROCESSING}"
      by (simp_all add: task_inv_def tasks_def)
    with nt True show ?thesis
      unfolding Process task_inv_def step.simps ts
      by (auto simp: process_document_obs(1))
  next
    case False
    with inv show ?thesis
      unfolding Process task_inv_def
      by (auto simp: process_document_obs)
  qed
next
  case (Status did)
  with inv show ?thesis by simp
next
  case (Query qs request)
  with inv show ?thesis by simp
next
  case (Delete fs_error did)
  from inv delete_document_obs(1) [of fs_error did s] show ?thesis
    unfolding Delete task_inv_def by (simp add: delete_document_obs(2)) metis
next
  case (BackgroundStart did)
  show ?thesis
  proof (cases "did \<in> set (background_tasks s)")
    case False
    with inv show ?thesis by (simp add: BackgroundStart start_task_idle)
  next
    case True
    from inv have dist: "distinct (background_tasks s @ map fst (running_tasks s))"
      and st: "\<forall>d \<in> set (background_tasks s) \<union> set (map fst (running_tasks s)).
                 status_of s d \<in> {None, Some PROCESSING}"
      by (simp_all add: task_inv_def tasks_def)
    from dist True have nr: "did \<notin> set (map fst (running_tasks s))" by auto
    from dist have d1: "distinct (remove1 did (background_tasks s) @ map fst (running_tasks s))"
      by (auto dest: notin_set_remove1)
    from dist have d2: "did \<notin> set (remove1 did (background_tasks s))"
      by simp
    have sub: "set (remove1 did (background_tasks s)) \<subseteq> set (background_tasks s)"
      by (rule set_remove1_subset)
    show ?thesis
      unfolding BackgroundStart task_inv_def step.simps start_task_obs [OF True]
      using d1 d2 nr st sub True by auto
  qed
next
  case (BackgroundFinish srv elapsed did)
  show ?thesis
  proof (cases "map_of (running_tasks s) did")
    case None
    with inv show ?thesis by (simp add: BackgroundFinish finish_task_idle)
  next
    case (Some fpath)
    from inv have dist: "distinct (background_tasks s @ map fst (running_tasks s))"
      and st: "\<forall>d \<in> set (background_tasks s) \<union> set (map fst (running_tasks s)).
                 status_of s d \<in> {None, Some PROCESSING}"
      by (simp_all add: task_inv_def tasks_def)
    from dist map_of_in_fst [OF Some] have nb: "did \<notin> set (background_tasks s)" by auto
    from dist have nr: "did \<notin> set (remove1 did (map fst (running_tasks s)))" by simp
    from dist have d1: "distinct (background_tasks s @ remove1 did (map fst (running_tasks s)))"
      by (auto dest: notin_set_remove1)
    have sub: "set (remove1 did (map fst (running_tasks s))) \<subseteq> set (map fst (running_tasks s))"
      by (rule set_remove1_subset)
    show ?thesis
      unfolding BackgroundFinish task_inv_def step.simps finish_task_obs [OF Some]
      using d1 nb nr st sub by auto
  qed
qed

lemma rag_inv_None:
  assumes "rag_inv s" and "status_of s d \<noteq> None" and "status_of s d \<noteq> Some COMPLETED"
  shows "rag_services s d = None"
proof (cases "rag_services s d")
  case None
  then show ?thesis .
next
  case (Some rag)
  from assms(1) [unfolded rag_inv_def, rule_format, OF Some] assms(2,3) show ?thesis by auto
qed

lemma rag_inv_Some:
  assumes "rag_inv s" and "rag_services s d = Some rag"
  shows "status_of s d \<in> {None, Some COMPLETED}" and "index_consistent rag"
  using assms(1) [unfolded rag_inv_def, rule_format, OF assms(2)] by simp_all

lemma rag_inv_step:
  assumes tinv: "task_inv s" and inv: "rag_inv s"
      and fresh: "\<And>io file. ev = Upload io file \<Longrightarrow> uuid4 io \<notin> dom (rag_services s)"
  shows "rag_inv (step st s ev)"
proof (cases ev)
  case (Upload io upl)
  from fresh [OF Upload] inv upload_document_obs(1) [of st io upl s] show ?thesis
    unfolding Upload rag_inv_def by (simp add: upload_document_obs(3)) (metis domI)
next
  case (Process did)
  have none: "rag_services s did = None"
    if "status_of s did = Some PENDING \<or> status_of s did = Some FAILED"
  proof (cases "rag_services s did")
    case None
    then show ?thesis .
  next
    case (Some rag)
    from inv [unfolded rag_inv_def, rule_format, OF Some] that show ?thesis by auto
  qed
  have keep: "status_of s d \<in> {None, Some COMPLETED} \<and> index_consistent rag"
    if "rag_services s d = Some rag" for d rag
    using inv [unfolded rag_inv_def, rule_format, OF that] .
  show ?thesis
    unfolding Process rag_inv_def step.simps process_document_obs
    using none keep by auto
next
  case (Status did)
  with inv show ?thesis by simp
next
  case (Query qs request)
  with inv show ?thesis by simp
next
  case (Delete fs_error did)
  from inv delete_document_obs(1) [of fs_error did s] delete_document_obs(3) [of fs_error did s]
  show ?thesis
    unfolding Delete rag_inv_def step.simps
    by (metis insertCI option.distinct(1))
next
  case (BackgroundStart did)
  show ?thesis
  proof (cases "did \<in> set (background_tasks s)")
    case False
    with inv show ?thesis by (simp add: BackgroundStart start_task_idle)
  next
    case True
    with tinv have "status_of s did \<in> {None, Some PROCESSING}"
      by (simp add: task_inv_def tasks_def)
    then have "status_of s did \<noteq> None \<Longrightarrow> rag_services s did = None"
      using rag_inv_None [OF inv, of did] by auto
    then show ?thesis
      unfolding BackgroundStart rag_inv_def step.simps start_task_obs [OF True]
      using rag_inv_Some [OF inv] by auto
  qed
next
  case (BackgroundFinish srv elapsed did)
  show ?thesis
  proof (cases "map_of (running_tasks s) did")
    case None
    with inv show ?thesis by (simp add: BackgroundFinish finish_task_idle)
  next
    case (Some fpath)
    from tinv map_of_in_fst [OF Some] have run: "status_of s did \<in> {None, Some PROCESSING}"
      by (simp add: task_inv_def tasks_def)
    show ?thesis
    proof (cases "ingest st srv did fpath")
      case (Inl e)
      from run have "status_of s did \<noteq> None \<Longrightarrow> rag_services s did = None"
        using rag_inv_None [OF inv, of did] by auto
      with Inl show ?thesis
        unfolding BackgroundFinish rag_inv_def step.simps finish_task_obs [OF Some]
        using rag_inv_Some [OF inv] by auto
    next
      case (Inr r)
      obtain cnt rag where r: "r = (cnt, rag)" by (cases r)
      from ingest_Inr(2) [OF Inr [unfolded r]] have "index_consistent rag" .
      with Inr r show ?thesis
        unfolding BackgroundFinish rag_inv_def step.simps finish_task_obs [OF Some]
        using rag_inv_Some [OF inv] by auto
    qed
  qed
qed

lemma known_ids_step: "known_ids (step st s ev) \<subseteq> known_ids s \<union> set (upload_ids [ev])"
proof (cases ev)
  case (Upload io upl)
  from upload_document_obs(4) [of st io upl s] show ?thesis
    unfolding Upload known_ids_def by (auto simp: upload_document_obs(2,3))
next
  case (Process did)
  show ?thesis
  proof (cases "status_of s did = Some PENDING \<or> status_of s did = Some FAILED")
    case True
    then have "did \<in> dom (document_store s)" by (auto simp: status_of_def)
    moreover from True have ts: "tasks (snd (process_document did s)) =
        background_tasks s @ [did] @ map fst (running_tasks s)"
      by (simp add: process_document_obs(2))
    ultimately show ?thesis
      unfolding Process known_ids_def step.simps ts process_document_obs(3,4)
      by (auto simp: tasks_def)
  next
    case False
    then show ?thesis
      unfolding Process known_ids_def by (auto simp: process_document_obs)
  qed
next
  case (Status did)
  then show ?thesis by simp
next
  case (Query qs request)
  then show ?thesis by simp
next
  case (Delete fs_error did)
  from delete_document_obs(4,5) [of fs_error did s] show ?thesis
    unfolding Delete known_ids_def by (auto simp: delete_document_obs(2))
next
  case (BackgroundStart did)
  show ?thesis
  proof (cases "did \<in> set (background_tasks s)")
    case False
    then show ?thesis by (simp add: BackgroundStart start_task_idle)
  next
    case True
    have "set (remove1 did (background_tasks s)) \<subseteq> set (background_tasks s)"
      by (rule set_remove1_subset)
    with True show ?thesis
      unfolding BackgroundStart known_ids_def step.simps start_task_obs [OF True]
      by (auto simp: tasks_def status_of_def)
  qed
next
  case (BackgroundFinish srv elapsed did)
  show ?thesis
  proof (cases "map_of (running_tasks s) did")
    case None
    then show ?thesis by (simp add: BackgroundFinish finish_task_idle)
  next
    case (Some fpath)
    have "set (remove1 did (map fst (running_tasks s))) \<subseteq> set (map fst (running_tasks s))"
      by (rule set_remove1_subset)
    with map_of_in_fst [OF Some] show ?thesis
      unfolding BackgroundFinish known_ids_def step.simps finish_task_obs [OF Some]
      by (auto simp: tasks_def split: sum.splits prod.splits)
  qed
qed

lemma reachable_inv:
  "distinct (upload_ids evs) \<Longrightarrow>
     task_inv (run st evs) \<and> rag_inv (run st evs) \<and> known_ids (run st evs) \<subseteq> set (upload_ids evs)"
proof (induction evs rule: rev_induct)
  case Nil
  show ?case
    by (simp add: task_inv_def rag_inv_def known_ids_def tasks_def init_state_def)
next
  case (snoc ev evs)
  from snoc.prems have d: "distinct (upload_ids evs)"
    and new: "set (upload_ids evs) \<inter> set (upload_ids [ev]) = {}"
    by (simp_all add: upload_ids_append)
  from snoc.IH [OF d] have t: "task_inv (run st evs)" and r: "rag_inv (run st evs)"
    and k: "known_ids (run st evs) \<subseteq> set (upload_ids evs)" by simp_all
  have fresh: "uuid4 io \<notin> known_ids (run st evs)" if "ev = Upload io upl" for io upl
    using that new k by auto
  have "task_inv (step st (run st evs) ev)"
    by (rule task_inv_step [OF t]) (use fresh in \<open>auto simp: known_ids_def\<close>)
  moreover have "rag_inv (step st (run st evs) ev)"
    by (rule rag_inv_step [OF t r]) (use fresh in \<open>auto simp: known_ids_def\<close>)
  moreover have "known_ids (step st (run st evs) ev) \<subseteq> set (upload_ids (evs @ [ev]))"
    using known_ids_step [of st "run st evs" ev] k by (auto simp: upload_ids_append)
  ultimately show ?case by simp
qed

subsection \<open>The transitions of one event\<close>

lemma step_status:
  assumes tinv: "task_inv s"
      and fresh: "\<And>io upl. ev = Upload io upl \<Longrightarrow> uuid4 io \<notin> known_ids s"
  shows "status_of s d = Some COMPLETED \<Longrightarrow> status_of (step st s ev) d \<in> {Some COMPLETED, None}"
    and "status_of s d = Some PENDING \<Longrightarrow>
           status_of (step st s ev) d \<in> {Some PENDING, Some PROCESSING, None}"
    and "status_of s d = Some PROCESSING \<Longrightarrow>
           status_of (step st s ev) d \<in> {Some PROCESSING, Some COMPLETED, Some FAILED, None}"
    and "status_of s d = Some FAILED \<Longrightarrow>
           status_of (step st s ev) d \<in> {Some FAILED, None}
           \<or> ev = Process d \<and> status_of (step st s ev) d = Some PROCESSING"
    and "status_of s d = None \<Longrightarrow>
           status_of (step st s ev) d = None
           \<or> (\<exists>io upl. ev = Upload io upl \<and> uuid4 io = d)
              \<and> status_of (step st s ev) d = Some PENDING"
proof -
  have task: "status_of s did \<in> {None, Some PROCESSING}" if "did \<in> set (tasks s)" for did
    using tinv that by (simp add: task_inv_def)
  have "(status_of s d = Some COMPLETED \<longrightarrow> status_of (step st s ev) d \<in> {Some COMPLETED, None})
      \<and> (status_of s d = Some PENDING \<longrightarrow>
           status_of (step st s ev) d \<in> {Some PENDING, Some PROCESSING, None})
      \<and> (status_of s d = Some PROCESSING \<longrightarrow>
           status_of (step st s ev) d \<in> {Some PROCESSING, Some COMPLETED, Some FAILED, None})
      \<and> (status_of s d = Some FAILED \<longrightarrow>
           status_of (step st s ev) d \<in> {Some FAILED, None}
           \<or> ev = Process d \<and> status_of (step st s ev) d = Some PROCESSING)
      \<and> (status_of s d = None \<longrightarrow>
           status_of (step st s ev) d = None
           \<or> (\<exists>io upl. ev = Upload io upl \<and> uuid4 io = d)
              \<and> status_of (step st s ev) d = Some PENDING)"
  proof (cases ev)
    case (Upload io upl)
    from fresh [OF Upload] have "d = uuid4 io \<Longrightarrow> status_of s d = None"
      by (auto simp: known_ids_def status_of_def)
    with upload_document_obs(1) [of st io upl s d] show ?thesis
      unfolding Upload step.simps by auto
  next
    case (Process did)
    show ?thesis
      unfolding Process step.simps process_document_obs by auto
  next
    case (Status did)
    then show ?thesis by simp
  next
    case (Query qs request)
    then show ?thesis by simp
  next
    case (Delete fs_error did)
    from delete_document_obs(1) [of fs_error did s d] show ?thesis
      unfolding Delete step.simps by auto
  next
    case (BackgroundStart did)
    show ?thesis
    proof (cases "did \<in> set (background_tasks s)")
      case False
      then show ?thesis by (simp add: BackgroundStart start_task_idle)
    next
      case True
      then have "did \<in> set (tasks s)" by (simp add: tasks_def)
      from task [OF this] show ?thesis
        unfolding BackgroundStart step.simps start_task_obs [OF True] by auto
    qed
  next
    case (BackgroundFinish srv elapsed did)
    show ?thesis
    proof (cases "map_of (running_tasks s) did")
      case None
      then show ?thesis by (simp add: BackgroundFinish finish_task_idle)
    next
      case (Some fpath)
      from map_of_in_fst [OF Some] have "did \<in> set (tasks s)" by (simp add: tasks_def)
      from task [OF this] show ?thesis
        unfolding BackgroundFinish step.simps finish_task_obs [OF Some] by auto
    qed
  qed
  then show "status_of s d = Some COMPLETED \<Longrightarrow> status_of (step st s ev) d \<in> {Some COMPLETED, None}"
    and "status_of s d = Some PENDING \<Longrightarrow>
           status_of (step st s ev) d \<in> {Some PENDING, Some PROCESSING, None}"
    and "status_of s d = Some PROCESSING \<Longrightarrow>
           status_of (step st s ev) d \<in> {Some PROCESSING, Some COMPLETED, Some FAILED, None}"
    and "status_of s d = Some FAILED \<Longrightarrow>
           status_of (step st s ev) d \<in> {Some FAILED, None}
           \<or> ev = Process d \<and> status_of (step st s ev) d = Some PROCESSING"
    and "status_of s d = None \<Longrightarrow>
           status_of (step st s ev) d = None
           \<or> (\<exists>io upl. ev = Upload io upl \<and> uuid4 io = d)
              \<and> status_of (step st s ev) d = Some PENDING"
    by blast+
qed

lemma run_append: "run st (evs @ evs') = foldl (step st) (run st evs) evs'"
  by (simp add: run_def)

text \<open>
  A set of states of a document that no event other than an upload of the document's
  own id leaves, is never left once the id has been used.
\<close>

lemma run_closed:
  assumes dist: "distinct (upload_ids (evs @ evs'))"
      and used: "d \<in> set (upload_ids evs)"
      and start: "status_of (run st evs) d \<in> A"
      and closed: "\<And>s ev. task_inv s \<Longrightarrow>
                      (\<And>io upl. ev = Upload io upl \<Longrightarrow> uuid4 io \<notin> known_ids s \<and> uuid4 io \<noteq> d) \<Longrightarrow>
                      status_of s d \<in> A \<Longrightarrow> status_of (step st s ev) d \<in> A"
  shows "status_of (run st (evs @ evs')) d \<in> A"
  using dist
proof (induction evs' rule: rev_induct)
  case Nil
  with start show ?case by simp
next
  case (snoc ev evs')
  from snoc.prems have d1: "distinct (upload_ids (evs @ evs'))"
    and new: "set (upload_ids (evs @ evs')) \<inter> set (upload_ids [ev]) = {}"
    by (auto simp: upload_ids_append)
  from reachable_inv [OF d1, of st] have t: "task_inv (run st (evs @ evs'))"
    and k: "known_ids (run st (evs @ evs')) \<subseteq> set (upload_ids (evs @ evs'))" by simp_all
  have fresh: "uuid4 io \<notin> known_ids (run st (evs @ evs')) \<and> uuid4 io \<noteq> d"
    if "ev = Upload io upl" for io upl
    using that new k used by (auto simp: upload_ids_append)
  have "status_of (step st (run st (evs @ evs')) ev) d \<in> A"
    by (rule closed [OF t fresh snoc.IH [OF d1]])
  then show ?case
    by (simp flip: append_assoc)
qed

subsection \<open>A completed document can be queried\<close>

lemma delete_document_both:
  "status_of (snd (delete_document fs_error did s)) d = status_of s d
     \<and> rag_services (snd (delete_document fs_error did s)) d = rag_services s d
   \<or> status_of (snd (delete_document fs_error did s)) d = None"
  by (auto simp: delete_document_def status_of_def split: option.splits if_splits)

lemma completed_inv_step:
  assumes tinv: "task_inv s" and inv: "completed_inv s"
      and fresh: "\<And>io upl. ev = Upload io upl \<Longrightarrow> uuid4 io \<notin> known_ids s"
  shows "completed_inv (step st s ev)"
proof -
  have keep: "rag_services s d \<noteq> None" if "status_of s d = Some COMPLETED" for d
    using inv that by (simp add: completed_inv_def)
  have task: "status_of s did \<in> {None, Some PROCESSING}" if "did \<in> set (tasks s)" for did
    using tinv that by (simp add: task_inv_def)
  show ?thesis
  proof (cases ev)
    case (Upload io upl)
    from fresh [OF Upload] have "status_of s (uuid4 io) = None"
      by (auto simp: known_ids_def status_of_def)
    with upload_document_obs(1) [of st io upl s] keep show ?thesis
      unfolding Upload completed_inv_def step.simps upload_document_obs(3)
      by (metis ProcessingStatus.distinct(3) option.inject)
  next
    case (Process did)
    from keep show ?thesis
      unfolding Process completed_inv_def step.simps process_document_obs
      by auto
  next
    case (Status did)
    with inv show ?thesis by simp
  next
    case (Query qs request)
    with inv show ?thesis by simp
  next
    case (Delete fs_error did)
    from delete_document_both [of fs_error did s] keep show ?thesis
      unfolding Delete completed_inv_def step.simps
      by (metis option.distinct(1))
  next
    case (BackgroundStart did)
    show ?thesis
    proof (cases "did \<in> set (background_tasks s)")
      case False
      with inv show ?thesis by (simp add: BackgroundStart start_task_idle)
    next
      case True
      then have "did \<in> set (tasks s)" by (simp add: tasks_def)
      from task [OF this] keep show ?thesis
        unfolding BackgroundStart completed_inv_def step.simps start_task_obs [OF True]
        by auto
    qed
  next
    case (BackgroundFinish srv elapsed did)
    show ?thesis
    proof (cases "map_of (running_tasks s) did")
      case None
      with inv show ?thesis by (simp add: BackgroundFinish finish_task_idle)
    next
      case (Some fpath)
      from map_of_in_fst [OF Some] have "did \<in> set (tasks s)" by (simp add: tasks_def)
      from task [OF this] keep show ?thesis
        unfolding BackgroundFinish completed_inv_def step.simps finish_task_obs [OF Some]
        by (auto split: sum.splits prod.splits)
    qed
  qed
qed

lemma reachable_completed_inv:
  "distinct (upload_ids evs) \<Longrightarrow> completed_inv (run st evs)"
proof (induction evs rule: rev_induct)
  case Nil
  show ?case by (simp add: completed_inv_def status_of_def init_state_def)
next
  case (snoc ev evs)
  from snoc.prems have d: "distinct (upload_ids evs)"
    and new: "set (upload_ids evs) \<inter> set (upload_ids [ev]) = {}"
    by (auto simp: upload_ids_append)
  from reachable_inv [OF d, of st] have t: "task_inv (run st evs)"
    and k: "known_ids (run st evs) \<subseteq> set (upload_ids evs)" by simp_all
  have fresh: "uuid4 io \<notin> known_ids (run st evs)" if "ev = Upload io upl" for io upl
    using that new k by auto
  from completed_inv_step [OF t snoc.IH [OF d] fresh] show ?case by simp
qed

text \<open>
  In a reachable state the \<open>query_document\<close> of \<^verbatim>\<open>queries.py\<close> raises nothing for a
  registered document, and its response carries a \<open>status_info\<close>.
\<close>

lemma queries_query_document_total:
  assumes fresh: "distinct (upload_ids evs)"
      and reg: "status_of (run st evs) (QueryRequest.document_id request) \<noteq> None"
  shows "\<exists>r. queries_query_document qs request (run st evs) = Inr r \<and> status_info r \<noteq> None"
proof -
  from reg obtain info where
    info: "document_store (run st evs) (QueryRequest.document_id request) = Some info"
    by (auto simp: status_of_def)
  show ?thesis
  proof (cases "doc_info.status info = COMPLETED")
    case False
    with info show ?thesis
      by (cases "doc_info.status info") (simp_all add: queries_query_document_def Let_def)
  next
    case True
    with info have "status_of (run st evs) (QueryRequest.document_id request) = Some COMPLETED"
      by (simp add: status_of_def)
    with reachable_completed_inv [OF fresh, of st] obtain rag where
      "rag_services (run st evs) (QueryRequest.document_id request) = Some rag"
      by (auto simp: completed_inv_def)
    with info True show ?thesis
      by (simp add: queries_query_document_def Let_def split: sum.splits)
  qed
qed

section \<open>The claims\<close>

subsection \<open>Registration\<close>

text \<open>
  C8, as the claim states it, fails: with storage available (the file is written without
  error), registering a file named \<open>notes.txt\<close> of 10 bytes is rejected with
  \<open>InvalidFileError\<close> and no document is created. The check on the file name is the first
  statement of \<open>upload_document\<close>.
\<close>

theorem upload_document_rejects_non_pdf:
  "upload_document settings
      \<lparr> uuid4 = ''doc-1'', write_error = None, now_stored = 0, now_returned = 0 \<rparr>
      \<lparr> UploadFile.filename = Some ''notes.txt'', size = Some 10 \<rparr> init_state
   = (Inl (InvalidFileError ''Only PDF files are allowed''), init_state)"
  by (simp add: upload_document_def suffix_def)

text \<open>
  C8, amended: for a file with a name and a size, registration creates a document in
  state PENDING (and an immediate status request returns PENDING) whenever the name ends
  in \<open>.pdf\<close>, the size is at most \<open>MAX_FILE_SIZE\<close> and the file can be written to
  storage; when the write fails it answers HTTP 500 and registers nothing; and when the
  name does not end in \<open>.pdf\<close> or the size exceeds \<open>MAX_FILE_SIZE\<close> it is rejected
  with \<open>InvalidFileError\<close> and registers nothing.
\<close>

theorem upload_document_registers:
  assumes "UploadFile.filename file = Some name" and "size file = Some sz"
  shows "(suffix ''.pdf'' name \<and> sz \<le> MAX_FILE_SIZE st \<and> write_error io = None \<longrightarrow>
            (\<exists>r. fst (upload_document st io file s) = Inr r
                 \<and> DocumentUploadResponse.status r = PENDING
                 \<and> DocumentUploadResponse.document_id r = uuid4 io)
            \<and> status_of (snd (upload_document st io file s)) (uuid4 io) = Some PENDING
            \<and> (\<exists>d. get_document_status (uuid4 io) (snd (upload_document st io file s)) = Inr d
                    \<and> DocumentStatus.status d = PENDING))
       \<and> (suffix ''.pdf'' name \<and> sz \<le> MAX_FILE_SIZE st \<and> write_error io \<noteq> None \<longrightarrow>
            upload_document st io file s = (Inl (HTTPException 500 ''Upload failed''), s))
       \<and> (\<not> suffix ''.pdf'' name \<or> sz > MAX_FILE_SIZE st \<longrightarrow>
            (\<exists>m. upload_document st io file s = (Inl (InvalidFileError m), s)))"
  using assms by (auto simp: upload_document_def status_of_def get_document_status_def Let_def)

theorem upload_document_registers_witness:
  "suffix ''.pdf'' ''report.pdf'' \<and> (1024 :: int) \<le> MAX_FILE_SIZE settings
   \<and> status_of (snd (upload_document settings
        \<lparr> uuid4 = ''doc-1'', write_error = None, now_stored = 0, now_returned = 0 \<rparr>
        \<lparr> UploadFile.filename = Some ''report.pdf'', size = Some 1024 \<rparr> init_state)) ''doc-1''
       = Some PENDING
   \<and> upload_document settings
        \<lparr> uuid4 = ''doc-2'', write_error = Some (Raised ''No space left on device''),
          now_stored = 0, now_returned = 0 \<rparr>
        \<lparr> UploadFile.filename = Some ''report.pdf'', size = Some 1024 \<rparr> init_state
       = (Inl (HTTPException 500 ''Upload failed''), init_state)
   \<and> \<not> suffix ''.pdf'' ''notes.txt''
   \<and> (\<exists>m. upload_document settings
        \<lparr> uuid4 = ''doc-3'', write_error = None, now_stored = 0, now_returned = 0 \<rparr>
        \<lparr> UploadFile.filename = Some ''notes.txt'', size = Some 10 \<rparr> init_state
       = (Inl (InvalidFileError m), init_state))"
proof -
  have is_pdf: "suffix ''.pdf'' ''report.pdf''" and not_pdf: "\<not> suffix ''.pdf'' ''notes.txt''"
    by (simp_all add: suffix_def)
  have sz: "(1024 :: int) \<le> MAX_FILE_SIZE settings"
    by (simp add: settings_def)
  show ?thesis
    using is_pdf not_pdf sz
      upload_document_registers [of "\<lparr> UploadFile.filename = Some ''report.pdf'', size = Some 1024 \<rparr>"
        "''report.pdf''" 1024 settings
        "\<lparr> uuid4 = ''doc-1'', write_error = None, now_stored = 0, now_returned = 0 \<rparr>" init_state]
      upload_document_registers [of "\<lparr> UploadFile.filename = Some ''report.pdf'', size = Some 1024 \<rparr>"
        "''report.pdf''" 1024 settings
        "\<lparr> uuid4 = ''doc-2'', write_error = Some (Raised ''No space left on device''),
           now_stored = 0, now_returned = 0 \<rparr>" init_state]
      upload_document_registers [of "\<lparr> UploadFile.filename = Some ''notes.txt'', size = Some 10 \<rparr>"
        "''notes.txt''" 10 settings
        "\<lparr> uuid4 = ''doc-3'', write_error = None, now_stored = 0, now_returned = 0 \<rparr>" init_state]
    by simp
qed

subsection \<open>Queries\<close>

text \<open>
  C3: \<open>query_document\<close> of \<^verbatim>\<open>queries.py\<close>, asked about a registered document that is
  not COMPLETED, raises nothing and returns a response with no sources, no related
  images, confidence 0 and a \<open>status_info\<close> that carries the state of the document; and
  for two documents in different states (each of PENDING, PROCESSING, FAILED) the answers
  and the status messages differ.
\<close>

theorem query_document_not_completed:
  assumes "document_store s1 (QueryRequest.document_id req1) = Some info1"
      and "doc_info.status info1 \<noteq> COMPLETED"
      and "document_store s2 (QueryRequest.document_id req2) = Some info2"
      and "doc_info.status info2 \<noteq> COMPLETED"
  shows "\<exists>r1 r2 si1 si2.
           queries_query_document qs1 req1 s1 = Inr r1 \<and> queries_query_document qs2 req2 s2 = Inr r2
         \<and> sources r1 = [] \<and> related_images r1 = [] \<and> confidence_score r1 = Some 0
         \<and> status_info r1 = Some si1 \<and> StatusInfo.status si1 = status_value (doc_info.status info1)
         \<and> status_info r2 = Some si2
         \<and> (doc_info.status info1 \<noteq> doc_info.status info2 \<longrightarrow>
              answer r1 \<noteq> answer r2 \<and> StatusInfo.message si1 \<noteq> StatusInfo.message si2)"
  using assms
  by (cases "doc_info.status info1"; cases "doc_info.status info2")
     (simp_all add: queries_query_document_def Let_def)

theorem query_document_not_completed_witness:
  "(\<exists>r1 r2 si1 si2.
       queries_query_document \<lparr> retrieve_and_generate = (\<lambda>rag q k. Inl (Raised ''unused'')) \<rparr>
         \<lparr> QueryRequest.document_id = ''doc-1'', question = ''What is shown?'', max_results = None \<rparr>
         (run settings [example_upload]) = Inr r1
     \<and> queries_query_document \<lparr> retrieve_and_generate = (\<lambda>rag q k. Inl (Raised ''unused'')) \<rparr>
         \<lparr> QueryRequest.document_id = ''doc-1'', question = ''What is shown?'', max_results = None \<rparr>
         (run settings [example_upload, Process ''doc-1'']) = Inr r2
     \<and> sources r1 = [] \<and> related_images r1 = [] \<and> confidence_score r1 = Some 0
     \<and> status_info r1 = Some si1 \<and> StatusInfo.status si1 = ''pending''
     \<and> status_info r2 = Some si2
     \<and> answer r1 \<noteq> answer r2 \<and> StatusInfo.message si1 \<noteq> StatusInfo.message si2)"
proof -
  obtain info1 where i1: "document_store (run settings [example_upload]) ''doc-1'' = Some info1"
    and s1: "doc_info.status info1 = PENDING"
    by (simp add: model_defs)
  obtain info2 where i2: "document_store (run settings [example_upload, Process ''doc-1'']) ''doc-1''
      = Some info2"
    and s2: "doc_info.status info2 = PROCESSING"
    by (simp add: model_defs)
  show ?thesis
    using query_document_not_completed
      [of "run settings [example_upload]"
          "\<lparr> QueryRequest.document_id = ''doc-1'', question = ''What is shown?'', max_results = None \<rparr>"
          info1
          "run settings [example_upload, Process ''doc-1'']"
          "\<lparr> QueryRequest.document_id = ''doc-1'', question = ''What is shown?'', max_results = None \<rparr>"
          info2
          "\<lparr> retrieve_and_generate = (\<lambda>rag q k. Inl (Raised ''unused'')) \<rparr>"
          "\<lparr> retrieve_and_generate = (\<lambda>rag q k. Inl (Raised ''unused'')) \<rparr>"]
      i1 i2 s1 s2
    by simp
qed

text \<open>
  C2 does not hold of the code. The application serves \<open>POST /query/{document_id}\<close>
  with the \<open>query_document\<close> of \<^verbatim>\<open>documents.py\<close>, whose router is included first.
  On a COMPLETED document whose retrieval fails with a timeout, that handler raises
  \<open>HTTPException(500)\<close>, where the \<open>query_document\<close> of \<^verbatim>\<open>queries.py\<close> returns a
  response with empty sources and a \<open>status_info\<close> of status \<open>error\<close>.
\<close>

theorem documents_query_document_raises:
  "documents_query_document
     \<lparr> retrieve_and_generate = (\<lambda>rag q k. Inl (Raised ''connection timeout'')) \<rparr> ''doc-1''
     \<lparr> QueryRequest.document_id = ''doc-1'', question = ''What is shown?'', max_results = Some 5 \<rparr>
     (run settings [example_upload, Process ''doc-1'', BackgroundStart ''doc-1'',
                    BackgroundFinish example_services 1 ''doc-1''])
   = Inl (HTTPException 500 ''Query failed: Query failed: connection timeout'')
   \<and> (\<exists>r. queries_query_document
     \<lparr> retrieve_and_generate = (\<lambda>rag q k. Inl (Raised ''connection timeout'')) \<rparr>
     \<lparr> QueryRequest.document_id = ''doc-1'', question = ''What is shown?'', max_results = Some 5 \<rparr>
     (run settings [example_upload, Process ''doc-1'', BackgroundStart ''doc-1'',
                    BackgroundFinish example_services 1 ''doc-1'']) = Inr r
      \<and> sources r = [] \<and> map_option StatusInfo.status (status_info r) = Some ''error'')"
  by (simp add: model_defs str_nat.simps)

subsection \<open>Starting the ingestion\<close>

text \<open>
  C4: for a registered document, \<open>process_document\<close> called twice in succession
  schedules one ingestion task when the document was not yet PROCESSING or COMPLETED and
  none when it was; the second call changes nothing and reports the current state; and a
  call on a document that is PROCESSING or COMPLETED leaves the whole state as it is and
  returns that state.
\<close>

theorem process_document_idempotent:
  assumes "document_store s did = Some info"
  shows "\<exists>r1 r2 s1.
           process_document did s = (Inr r1, s1) \<and> process_document did s1 = (Inr r2, s1)
         \<and> background_tasks s1 = background_tasks s @
              (if doc_info.status info = PROCESSING \<or> doc_info.status info = COMPLETED then []
               else [did])
         \<and> running_tasks s1 = running_tasks s
         \<and> (doc_info.status info = PROCESSING \<or> doc_info.status info = COMPLETED \<longrightarrow>
               s1 = s \<and> ProcessingResponse.status r1 = doc_info.status info)
         \<and> status_of s1 did = Some (ProcessingResponse.status r2)"
  using assms by (cases "doc_info.status info") (simp_all add: process_document_def status_of_def)

theorem process_document_idempotent_witness:
  "(\<exists>r1 r2 s1.
      process_document ''doc-1'' (run settings [example_upload]) = (Inr r1, s1)
    \<and> process_document ''doc-1'' s1 = (Inr r2, s1)
    \<and> background_tasks s1 = [''doc-1'']
    \<and> ProcessingResponse.status r2 = PROCESSING)
   \<and> (\<exists>r. process_document ''doc-1'' (run settings [example_upload, Process ''doc-1''])
             = (Inr r, run settings [example_upload, Process ''doc-1''])
          \<and> ProcessingResponse.status r = PROCESSING)"
proof -
  obtain info where i: "document_store (run settings [example_upload]) ''doc-1'' = Some info"
    and s: "doc_info.status info = PENDING"
    and b: "background_tasks (run settings [example_upload]) = []"
    by (simp add: model_defs)
  from process_document_idempotent [OF i] obtain r1 r2 s1 where
    a: "process_document ''doc-1'' (run settings [example_upload]) = (Inr r1, s1)"
    "process_document ''doc-1'' s1 = (Inr r2, s1)"
    "background_tasks s1 = background_tasks (run settings [example_upload]) @
        (if doc_info.status info = PROCESSING \<or> doc_info.status info = COMPLETED then []
         else [''doc-1''])"
    "status_of s1 ''doc-1'' = Some (ProcessingResponse.status r2)"
    by blast
  from a(1,4) have "status_of s1 ''doc-1'' = Some PROCESSING"
    using i by (auto simp: process_document_def s status_of_def)
  with a s b have first: "\<exists>r1 r2 s1.
      process_document ''doc-1'' (run settings [example_upload]) = (Inr r1, s1)
    \<and> process_document ''doc-1'' s1 = (Inr r2, s1)
    \<and> background_tasks s1 = [''doc-1'']
    \<and> ProcessingResponse.status r2 = PROCESSING"
    by auto
  obtain info2 where i2: "document_store (run settings [example_upload, Process ''doc-1'']) ''doc-1''
      = Some info2"
    and s2: "doc_info.status info2 = PROCESSING"
    by (simp add: model_defs)
  from process_document_idempotent [OF i2] s2 have second:
    "\<exists>r. process_document ''doc-1'' (run settings [example_upload, Process ''doc-1''])
             = (Inr r, run settings [example_upload, Process ''doc-1''])
          \<and> ProcessingResponse.status r = PROCESSING"
    by auto
  from first second show ?thesis by (rule conjI)
qed

subsection \<open>Rate limiting\<close>




subsection \<open>Alignment of descriptions and metadata\<close>

text \<open>
  C10 does not hold of the code: when an image cannot be saved, its description has
  already been appended, and the \<open>except\<close> branch appends a second description. For one
  image that the vision service describes and the byte-store refuses,
  \<open>image_descriptions\<close> has two entries and \<open>image_metadata\<close> one, whose description is
  not the first description.
\<close>

theorem process_and_save_images_misaligned:
  "image_descriptions
     (process_and_save_images settings
        (example_services\<lparr> generate_content := (\<lambda>i image_b64. Inr ''A bar chart''),
                           write_image := (\<lambda>i image_path image_b64. Some (Raised ''disk full'')) \<rparr>)
        (example_processor [''aGVsbG8='']))
     = [''A bar chart'', ''Error processing image: disk full'']
   \<and> DocumentProcessor.image_metadata
     (process_and_save_images settings
        (example_services\<lparr> generate_content := (\<lambda>i image_b64. Inr ''A bar chart''),
                           write_image := (\<lambda>i image_path image_b64. Some (Raised ''disk full'')) \<rparr>)
        (example_processor [''aGVsbG8='']))
     = Some [\<lparr> image_meta.filename = None, path = None,
               description = ''Error processing image: disk full'', original_index = 0,
               unique_id = None \<rparr>]"
  by (simp add: model_defs str_nat.simps)

subsection \<open>Unit counts and index entries\<close>

text \<open>
  C6: when the ingestion task of a registered document ends with the document COMPLETED,
  the recorded \<open>elements_count\<close> satisfies texts + tables + images = the number of
  vectors in the index registered for the document, and these vectors and the docstore
  entries have the same keys.
\<close>

theorem unit_counts_match_index:
  assumes reg: "document_store s did = Some info"
      and fin: "status_of (snd (background_finish st srv elapsed did fpath s)) did = Some COMPLETED"
  shows "\<exists>info' cnt rag.
            document_store (snd (background_finish st srv elapsed did fpath s)) did = Some info'
          \<and> doc_info.elements_count info' = Some cnt
          \<and> rag_services (snd (background_finish st srv elapsed did fpath s)) did = Some rag
          \<and> elements_count.texts cnt + elements_count.tables cnt + elements_count.images cnt
              = length (vectorstore rag)
          \<and> doc_id ` set (vectorstore rag) = dom (store rag)"
proof (cases "ingest st srv did fpath")
  case (Inl e)
  with reg fin show ?thesis
    by (simp add: background_finish_def background_except_def status_of_def)
next
  case (Inr r)
  obtain cnt rag where r: "r = (cnt, rag)" by (cases r)
  from ingest_Inr [OF Inr [unfolded r]] have
    "elements_count.texts cnt + elements_count.tables cnt + elements_count.images cnt
        = length (vectorstore rag)"
    and "doc_id ` set (vectorstore rag) = dom (store rag)"
    by (simp_all add: index_consistent_def)
  with reg Inr r show ?thesis
    by (simp add: background_finish_def)
qed

theorem unit_counts_match_index_witness:
  "document_store (run settings [example_upload, Process ''doc-1'', BackgroundStart ''doc-1'']) ''doc-1''
     \<noteq> None
   \<and> status_of (snd (background_finish settings example_services 1 ''doc-1''
                  ''storage/uploads/doc-1_report.pdf''
                  (run settings [example_upload, Process ''doc-1'', BackgroundStart ''doc-1''])))
        ''doc-1'' = Some COMPLETED
   \<and> (\<exists>info' cnt rag.
            document_store (snd (background_finish settings example_services 1 ''doc-1''
                  ''storage/uploads/doc-1_report.pdf''
                  (run settings [example_upload, Process ''doc-1'', BackgroundStart ''doc-1''])))
               ''doc-1'' = Some info'
          \<and> doc_info.elements_count info' = Some cnt
          \<and> rag_services (snd (background_finish settings example_services 1 ''doc-1''
                  ''storage/uploads/doc-1_report.pdf''
                  (run settings [example_upload, Process ''doc-1'', BackgroundStart ''doc-1''])))
               ''doc-1'' = Some rag
          \<and> elements_count.texts cnt + elements_count.tables cnt + elements_count.images cnt
              = length (vectorstore rag)
          \<and> elements_count.texts cnt + elements_count.tables cnt + elements_count.images cnt = 2
          \<and> doc_id ` set (vectorstore rag) = dom (store rag))"
proof -
  obtain info where reg: "document_store (run settings [example_upload, Process ''doc-1'',
      BackgroundStart ''doc-1'']) ''doc-1'' = Some info"
    by (simp add: model_defs)
  have fin: "status_of (snd (background_finish settings example_services 1 ''doc-1''
                  ''storage/uploads/doc-1_report.pdf''
                  (run settings [example_upload, Process ''doc-1'', BackgroundStart ''doc-1''])))
        ''doc-1'' = Some COMPLETED"
    by (simp add: model_defs str_nat.simps)
  from unit_counts_match_index [OF reg fin] obtain info' cnt rag where
    a: "document_store (snd (background_finish settings example_services 1 ''doc-1''
                  ''storage/uploads/doc-1_report.pdf''
                  (run settings [example_upload, Process ''doc-1'', BackgroundStart ''doc-1''])))
               ''doc-1'' = Some info'"
       "doc_info.elements_count info' = Some cnt"
       "rag_services (snd (background_finish settings example_services 1 ''doc-1''
                  ''storage/uploads/doc-1_report.pdf''
                  (run settings [example_upload, Process ''doc-1'', BackgroundStart ''doc-1''])))
               ''doc-1'' = Some rag"
       "elements_count.texts cnt + elements_count.tables cnt + elements_count.images cnt
              = length (vectorstore rag)"
       "doc_id ` set (vectorstore rag) = dom (store rag)"
    by blast
  have two: "elements_count.texts cnt + elements_count.tables cnt + elements_count.images cnt = 2"
    using a(1,2) by (simp add: model_defs str_nat.simps) auto
  from reg fin a two show ?thesis by blast
qed

subsection \<open>Failures of the vision service\<close>

text \<open>
  C7: let the ingestion task run on a registered document, and let every collaborator
  succeed except, possibly, the vision service (the parser returns the chunks \<open>cs\<close>, the
  images can be saved, the summaries and the index operations succeed, the batch size is
  not zero). Then, whatever the vision service does on each image, the task ends with the
  document COMPLETED and its index registered; the index holds, in order, the summary of
  every text, the summary of every table and the description of every image; and every
  image whose vision call failed with \<open>e\<close> carries the placeholder description
  \<open>Error processing image: e\<close>.
\<close>

theorem vision_failure_is_not_fatal:
  assumes reg: "document_store s did = Some info"
      and parsed: "partition_pdf srv (file_path info) = Inr cs"
      and dir: "mkdir srv (path_join (IMAGES_FOLDER st) did) = None"
      and models: "setup_models srv = None"
      and saved: "\<And>i pth b. write_image srv i pth b = None"
      and batch_size: "MAX_IMAGES_PER_REQUEST st \<noteq> 0"
      and texts_ok: "\<And>t. \<not> isl (text_chain srv t)"
      and tables_ok: "\<And>t. \<not> isl (table_chain srv t)"
      and qdrant: "qdrant_client_ready srv" "\<And>c. recreate_collection srv c = None"
                  "setup_rag_chain srv = None"
      and adds: "\<And>n. add_documents_error srv n = None"
  shows "\<exists>info' rag.
           document_store (snd (process_document_background st srv elapsed did s)) did = Some info'
         \<and> doc_info.status info' = COMPLETED
         \<and> rag_services (snd (process_document_background st srv elapsed did s)) did = Some rag
         \<and> map page_content (vectorstore rag) =
               map (\<lambda>c. projr (text_chain srv (chunk_text c)))
                   (filter (\<lambda>c. \<not> str_contains ''Table'' (chunk_type c)
                                \<and> str_contains ''CompositeElement'' (chunk_type c)) cs)
               @ map (\<lambda>c. projr (table_chain srv (text_as_html c)))
                   (filter (\<lambda>c. str_contains ''Table'' (chunk_type c)) cs)
               @ map (\<lambda>(i, b). describe_image srv i b) (enumerate 0 (extract_images_base64 cs))
         \<and> (\<forall>i < length (extract_images_base64 cs). \<forall>e.
               generate_content srv i (extract_images_base64 cs ! i) = Inl e \<longrightarrow>
               rag_image_meta.description (RAGService.image_metadata rag ! i)
                 = ''Error processing image: '' @ str_exn e)"
proof -
  from ingest_ok [OF dir models parsed saved batch_size texts_ok tables_ok qdrant adds]
  obtain rag cnt where ing: "ingest st srv did (file_path info) = Inr (cnt, rag)"
    and pc: "map page_content (vectorstore rag) =
               map (\<lambda>c. projr (text_chain srv (chunk_text c)))
                   (filter (\<lambda>c. \<not> str_contains ''Table'' (chunk_type c)
                                \<and> str_contains ''CompositeElement'' (chunk_type c)) cs)
               @ map (\<lambda>c. projr (table_chain srv (text_as_html c)))
                   (filter (\<lambda>c. str_contains ''Table'' (chunk_type c)) cs)
               @ map (\<lambda>(i, b). describe_image srv i b) (enumerate 0 (extract_images_base64 cs))"
    and md: "map rag_image_meta.description (RAGService.image_metadata rag) =
               map (\<lambda>(i, b). describe_image srv i b) (enumerate 0 (extract_images_base64 cs))"
    by blast
  have placeholder: "rag_image_meta.description (RAGService.image_metadata rag ! i)
                 = ''Error processing image: '' @ str_exn e"
    if i: "i < length (extract_images_base64 cs)"
      and e: "generate_content srv i (extract_images_base64 cs ! i) = Inl e" for i e
  proof -
    from md have len: "length (RAGService.image_metadata rag) = length (extract_images_base64 cs)"
      by (metis length_map length_enumerate)
    with i have "rag_image_meta.description (RAGService.image_metadata rag ! i)
        = map rag_image_meta.description (RAGService.image_metadata rag) ! i"
      by simp
    also have "\<dots> = describe_image srv i (extract_images_base64 cs ! i)"
      unfolding md using i by (simp add: nth_enumerate_eq)
    also have "\<dots> = ''Error processing image: '' @ str_exn e"
      using e by (simp add: describe_image_def)
    finally show ?thesis .
  qed
  have "\<exists>info'. document_store (snd (process_document_background st srv elapsed did s)) did = Some info'
         \<and> doc_info.status info' = COMPLETED
         \<and> rag_services (snd (process_document_background st srv elapsed did s)) did = Some rag"
    using reg ing
    by (simp add: process_document_background_def background_start_def background_finish_def)
  with pc placeholder show ?thesis by blast
qed

theorem vision_failure_is_not_fatal_witness:
  "generate_content example_services 0 (extract_images_base64 example_chunks ! 0)
     = Inl (Raised ''quota exceeded'')
   \<and> (\<exists>info' rag.
        document_store (snd (process_document_background settings example_services 1 ''doc-1''
            (run settings [example_upload, Process ''doc-1'']))) ''doc-1'' = Some info'
      \<and> doc_info.status info' = COMPLETED
      \<and> rag_services (snd (process_document_background settings example_services 1 ''doc-1''
            (run settings [example_upload, Process ''doc-1'']))) ''doc-1'' = Some rag
      \<and> map page_content (vectorstore rag) =
            [''Summary: Introduction'', ''Error processing image: quota exceeded'']
      \<and> rag_image_meta.description (RAGService.image_metadata rag ! 0)
            = ''Error processing image: quota exceeded'')"
proof -
  obtain info where reg: "document_store (run settings [example_upload, Process ''doc-1'']) ''doc-1''
      = Some info"
    and fp: "file_path info = ''storage/uploads/doc-1_report.pdf''"
    by (simp add: model_defs)
  have parsed: "partition_pdf example_services (file_path info) = Inr example_chunks"
    and dir: "mkdir example_services (path_join (IMAGES_FOLDER settings) ''doc-1'') = None"
    and models: "setup_models example_services = None"
    and saved: "\<And>i pth b. write_image example_services i pth b = None"
    and batch_size: "MAX_IMAGES_PER_REQUEST settings \<noteq> 0"
    and texts_ok: "\<And>t. \<not> isl (text_chain example_services t)"
    and tables_ok: "\<And>t. \<not> isl (table_chain example_services t)"
    and qdrant: "qdrant_client_ready example_services"
      "\<And>c. recreate_collection example_services c = None"
      "setup_rag_chain example_services = None"
    and adds: "\<And>n. add_documents_error example_services n = None"
    by (simp_all add: example_services_def settings_def)
  have imgs: "extract_images_base64 example_chunks = [''aGVsbG8='']"
    by (simp add: extract_images_base64_def example_chunks_def)
  have vis: "generate_content example_services 0 (extract_images_base64 example_chunks ! 0)
     = Inl (Raised ''quota exceeded'')"
    by (simp add: example_services_def)
  from vision_failure_is_not_fatal [OF reg parsed dir models saved batch_size texts_ok tables_ok
      qdrant adds, of 1]
  obtain info' rag where
    a: "document_store (snd (process_document_background settings example_services 1 ''doc-1''
            (run settings [example_upload, Process ''doc-1'']))) ''doc-1'' = Some info'"
       "doc_info.status info' = COMPLETED"
       "rag_services (snd (process_document_background settings example_services 1 ''doc-1''
            (run settings [example_upload, Process ''doc-1'']))) ''doc-1'' = Some rag"
    and pc: "map page_content (vectorstore rag) =
               map (\<lambda>c. projr (text_chain example_services (chunk_text c)))
                   (filter (\<lambda>c. \<not> str_contains ''Table'' (chunk_type c)
                                \<and> str_contains ''CompositeElement'' (chunk_type c)) example_chunks)
               @ map (\<lambda>c. projr (table_chain example_services (text_as_html c)))
                   (filter (\<lambda>c. str_contains ''Table'' (chunk_type c)) example_chunks)
               @ map (\<lambda>(i, b). describe_image example_services i b)
                   (enumerate 0 (extract_images_base64 example_chunks))"
    and ph: "\<forall>i < length (extract_images_base64 example_chunks). \<forall>e.
               generate_content example_services i (extract_images_base64 example_chunks ! i) = Inl e \<longrightarrow>
               rag_image_meta.description (RAGService.image_metadata rag ! i)
                 = ''Error processing image: '' @ str_exn e"
    by blast
  have pc': "map page_content (vectorstore rag) =
            [''Summary: Introduction'', ''Error processing image: quota exceeded'']"
    unfolding pc imgs
    by (simp add: example_chunks_def example_services_def describe_image_def prefix_def)
  have ph': "rag_image_meta.description (RAGService.image_metadata rag ! 0)
            = ''Error processing image: quota exceeded''"
    using ph vis by (simp add: imgs)
  show ?thesis
    by (intro conjI exI [of _ info'] exI [of _ rag]) (rule vis a pc' ph')+
qed

subsection \<open>The states of a document\<close>

text \<open>
  C1, as the claim states it, fails: a FAILED document returns to PROCESSING. After an
  upload, \<open>process_document\<close> and an ingestion that fails because the parser rejects the
  file, the document is FAILED; \<open>process_document\<close> on it then schedules a new ingestion
  and sets PROCESSING, since only PROCESSING and COMPLETED are answered without
  restarting.
\<close>

theorem failed_document_restarts:
  "status_of (run settings [example_upload, Process ''doc-1'', BackgroundStart ''doc-1'',
      BackgroundFinish (example_services\<lparr> partition_pdf := (\<lambda>file_path. Inl (Raised ''corrupt file'')) \<rparr>)
        1 ''doc-1'']) ''doc-1'' = Some FAILED
   \<and> status_of (run settings [example_upload, Process ''doc-1'', BackgroundStart ''doc-1'',
      BackgroundFinish (example_services\<lparr> partition_pdf := (\<lambda>file_path. Inl (Raised ''corrupt file'')) \<rparr>)
        1 ''doc-1'', Process ''doc-1'']) ''doc-1'' = Some PROCESSING"
  by (simp add: model_defs str_nat.simps)

text \<open>
  C1, amended: in every sequence of operations (upload, process-document, the two parts
  of the background ingestion, status request, query, delete) in which every upload draws
  a new uuid, for every document: from PENDING one operation leads to PENDING or
  PROCESSING, from PROCESSING to PROCESSING, COMPLETED or FAILED, and from FAILED to
  FAILED, or to PROCESSING when the operation is \<open>process_document\<close> on that document
  (in each case the document may also have been deleted, which is \<open>None\<close>); a COMPLETED
  document stays COMPLETED until it is deleted, whatever operations follow; and a
  document that has left PENDING is never PENDING again.
\<close>

theorem state_transitions:
  assumes fresh: "distinct (upload_ids (evs @ ev # evs'))"
  shows "(status_of (run st evs) d = Some PENDING \<longrightarrow>
            status_of (run st (evs @ [ev])) d \<in> {Some PENDING, Some PROCESSING, None})
       \<and> (status_of (run st evs) d = Some PROCESSING \<longrightarrow>
            status_of (run st (evs @ [ev])) d \<in> {Some PROCESSING, Some COMPLETED, Some FAILED, None})
       \<and> (status_of (run st evs) d = Some FAILED \<longrightarrow>
            status_of (run st (evs @ [ev])) d \<in> {Some FAILED, None}
            \<or> ev = Process d \<and> status_of (run st (evs @ [ev])) d = Some PROCESSING)
       \<and> (status_of (run st evs) d = Some COMPLETED \<longrightarrow>
            status_of (run st (evs @ ev # evs')) d \<in> {Some COMPLETED, None})
       \<and> (status_of (run st evs) d \<in> {Some PROCESSING, Some COMPLETED, Some FAILED} \<longrightarrow>
            status_of (run st (evs @ ev # evs')) d \<noteq> Some PENDING)"
proof -
  have cons: "upload_ids (ev # evs') = upload_ids [ev] @ upload_ids evs'"
    using upload_ids_append [of "[ev]" evs'] by simp
  from fresh have d0: "distinct (upload_ids evs)"
    and new: "set (upload_ids evs) \<inter> set (upload_ids [ev]) = {}"
    by (auto simp: upload_ids_append cons)
  from reachable_inv [OF d0, of st] have t: "task_inv (run st evs)"
    and k: "known_ids (run st evs) \<subseteq> set (upload_ids evs)" by simp_all
  have fr: "uuid4 io \<notin> known_ids (run st evs)" if "ev = Upload io upl" for io upl
    using that new k by auto
  note one = step_status [where s = "run st evs" and ev = ev and st = st and d = d, OF t fr]
  have used: "d \<in> set (upload_ids evs)" if "status_of (run st evs) d \<noteq> None"
    using that k by (auto simp: known_ids_def status_of_def)
  have completed: "status_of (run st (evs @ ev # evs')) d \<in> {Some COMPLETED, None}"
    if c: "status_of (run st evs) d = Some COMPLETED"
  proof (rule run_closed [OF fresh])
    show "d \<in> set (upload_ids evs)" using used c by simp
    show "status_of (run st evs) d \<in> {Some COMPLETED, None}" using c by simp
    show "status_of (step st s e) d \<in> {Some COMPLETED, None}"
      if "task_inv s"
        and "\<And>io upl. e = Upload io upl \<Longrightarrow> uuid4 io \<notin> known_ids s \<and> uuid4 io \<noteq> d"
        and "status_of s d \<in> {Some COMPLETED, None}" for s e
      using step_status(1,5) [where s = s and ev = e and st = st and d = d, OF that(1)] that(2,3)
        by auto
  qed
  have not_pending: "status_of (run st (evs @ ev # evs')) d \<noteq> Some PENDING"
    if c: "status_of (run st evs) d \<in> {Some PROCESSING, Some COMPLETED, Some FAILED}"
  proof -
    have "status_of (run st (evs @ ev # evs')) d \<in> {Some PROCESSING, Some COMPLETED, Some FAILED, None}"
    proof (rule run_closed [OF fresh])
      show "d \<in> set (upload_ids evs)" using used c by auto
      show "status_of (run st evs) d \<in> {Some PROCESSING, Some COMPLETED, Some FAILED, None}"
        using c by auto
      show "status_of (step st s e) d \<in> {Some PROCESSING, Some COMPLETED, Some FAILED, None}"
        if "task_inv s"
          and "\<And>io upl. e = Upload io upl \<Longrightarrow> uuid4 io \<notin> known_ids s \<and> uuid4 io \<noteq> d"
          and "status_of s d \<in> {Some PROCESSING, Some COMPLETED, Some FAILED, None}" for s e
        using step_status(1,3,4,5) [where s = s and ev = e and st = st and d = d, OF that(1)]
            that(2,3)
          by auto
    qed
    then show ?thesis by auto
  qed
  from one completed not_pending show ?thesis
    by simp
qed

theorem state_transitions_witness:
  "distinct (upload_ids ([example_upload] @ Process ''doc-1'' # []))
   \<and> status_of (run settings [example_upload]) ''doc-1'' = Some PENDING
   \<and> status_of (run settings ([example_upload] @ [Process ''doc-1''])) ''doc-1''
         \<in> {Some PENDING, Some PROCESSING, None}
   \<and> status_of (run settings [example_upload, Process ''doc-1'', BackgroundStart ''doc-1''])
         ''doc-1'' = Some PROCESSING
   \<and> status_of (run settings ([example_upload, Process ''doc-1'', BackgroundStart ''doc-1'']
         @ [BackgroundFinish example_services 1 ''doc-1''])) ''doc-1''
         \<in> {Some PROCESSING, Some COMPLETED, Some FAILED, None}
   \<and> status_of (run settings [example_upload, Process ''doc-1'', BackgroundStart ''doc-1'',
         BackgroundFinish example_services 1 ''doc-1'']) ''doc-1'' = Some COMPLETED
   \<and> status_of (run settings ([example_upload, Process ''doc-1'', BackgroundStart ''doc-1'',
         BackgroundFinish example_services 1 ''doc-1''] @ Process ''doc-1'' # [BackgroundStart ''doc-1'']))
         ''doc-1'' \<in> {Some COMPLETED, None}
   \<and> status_of (run settings ([example_upload, Process ''doc-1'', BackgroundStart ''doc-1'',
         BackgroundFinish example_services 1 ''doc-1''] @ Process ''doc-1'' # [BackgroundStart ''doc-1'']))
         ''doc-1'' \<noteq> Some PENDING
   \<and> status_of (run settings [example_upload, Process ''doc-1'', BackgroundStart ''doc-1'',
         BackgroundFinish (example_services\<lparr> partition_pdf := (\<lambda>file_path. Inl (Raised ''corrupt file'')) \<rparr>)
           1 ''doc-1'']) ''doc-1'' = Some FAILED
   \<and> status_of (run settings ([example_upload, Process ''doc-1'', BackgroundStart ''doc-1'',
         BackgroundFinish (example_services\<lparr> partition_pdf := (\<lambda>file_path. Inl (Raised ''corrupt file'')) \<rparr>)
           1 ''doc-1''] @ [Delete None ''doc-1''])) ''doc-1'' \<in> {Some FAILED, None}"
proof -
  have d1: "distinct (upload_ids ([example_upload] @ Process ''doc-1'' # []))"
    and d2: "distinct (upload_ids ([example_upload, Process ''doc-1'', BackgroundStart ''doc-1'']
         @ BackgroundFinish example_services 1 ''doc-1'' # []))"
    and d3: "distinct (upload_ids ([example_upload, Process ''doc-1'', BackgroundStart ''doc-1'',
         BackgroundFinish example_services 1 ''doc-1''] @ Process ''doc-1'' # [BackgroundStart ''doc-1'']))"
    and d4: "distinct (upload_ids ([example_upload, Process ''doc-1'', BackgroundStart ''doc-1'',
         BackgroundFinish (example_services\<lparr> partition_pdf := (\<lambda>file_path. Inl (Raised ''corrupt file'')) \<rparr>)
           1 ''doc-1''] @ Delete None ''doc-1'' # []))"
    by (simp_all add: example_upload_def)
  have s1: "status_of (run settings [example_upload]) ''doc-1'' = Some PENDING"
    and s2: "status_of (run settings [example_upload, Process ''doc-1'', BackgroundStart ''doc-1''])
         ''doc-1'' = Some PROCESSING"
    and s3: "status_of (run settings [example_upload, Process ''doc-1'', BackgroundStart ''doc-1'',
         BackgroundFinish example_services 1 ''doc-1'']) ''doc-1'' = Some COMPLETED"
    and s4: "status_of (run settings [example_upload, Process ''doc-1'', BackgroundStart ''doc-1'',
         BackgroundFinish (example_services\<lparr> partition_pdf := (\<lambda>file_path. Inl (Raised ''corrupt file'')) \<rparr>)
           1 ''doc-1'']) ''doc-1'' = Some FAILED"
    by (simp_all add: model_defs str_nat.simps)
  note t1 = state_transitions [OF d1, of settings "''doc-1''"]
  note t2 = state_transitions [OF d2, of settings "''doc-1''"]
  note t3 = state_transitions [OF d3, of settings "''doc-1''"]
  note t4 = state_transitions [OF d4, of settings "''doc-1''"]
  from t1 s1 have w1: "status_of (run settings ([example_upload] @ [Process ''doc-1''])) ''doc-1''
         \<in> {Some PENDING, Some PROCESSING, None}"
    by blast
  from t2 s2 have w2: "status_of (run settings ([example_upload, Process ''doc-1'', BackgroundStart ''doc-1'']
         @ [BackgroundFinish example_services 1 ''doc-1''])) ''doc-1''
         \<in> {Some PROCESSING, Some COMPLETED, Some FAILED, None}"
    by blast
  from t3 s3 have w3: "status_of (run settings ([example_upload, Process ''doc-1'', BackgroundStart ''doc-1'',
         BackgroundFinish example_services 1 ''doc-1''] @ Process ''doc-1'' # [BackgroundStart ''doc-1'']))
         ''doc-1'' \<in> {Some COMPLETED, None}"
    and w3': "status_of (run settings ([example_upload, Process ''doc-1'', BackgroundStart ''doc-1'',
         BackgroundFinish example_services 1 ''doc-1''] @ Process ''doc-1'' # [BackgroundStart ''doc-1'']))
         ''doc-1'' \<noteq> Some PENDING"
    by blast+
  from t4 s4 have w4: "status_of (run settings ([example_upload, Process ''doc-1'', BackgroundStart ''doc-1'',
         BackgroundFinish (example_services\<lparr> partition_pdf := (\<lambda>file_path. Inl (Raised ''corrupt file'')) \<rparr>)
           1 ''doc-1''] @ [Delete None ''doc-1''])) ''doc-1'' \<in> {Some FAILED, None}"
    by blast
  show ?thesis
    by (intro conjI) (rule d1 s1 w1 s2 w2 s3 w3 w3' s4 w4)+
qed

subsection \<open>Consistency of the index and aborted ingestions\<close>

text \<open>
  C5: in every state reached by a sequence of operations in which every upload draws a
  new uuid, an index registered for a document has exactly the same keys in its vector
  store and in its docstore (no vector without content, no content without vector), and
  the document is COMPLETED (or deleted). When the ingestion of a registered document
  aborts with an exception \<open>e\<close>, the task leaves the document FAILED with the message
  of \<open>e\<close> recorded and no index registered for it, and a query about the document is
  answered without sources or images: the partly built index is reachable from no
  request.
\<close>

theorem index_consistent_and_partial_hidden:
  assumes fresh: "distinct (upload_ids evs)"
  shows "(rag_services (run st evs) d = Some rag \<longrightarrow>
            doc_id ` set (vectorstore rag) = dom (store rag)
            \<and> status_of (run st evs) d \<in> {Some COMPLETED, None})
       \<and> (map_of (running_tasks (run st evs)) d = Some fpath \<and> ingest st srv d fpath = Inl e
           \<and> status_of (run st evs) d \<noteq> None \<longrightarrow>
            status_of (run st (evs @ [BackgroundFinish srv elapsed d])) d = Some FAILED
            \<and> map_option error_message (document_store (run st (evs @ [BackgroundFinish srv elapsed d])) d)
                = Some (Some (str_exn e))
            \<and> rag_services (run st (evs @ [BackgroundFinish srv elapsed d])) d = None
            \<and> (QueryRequest.document_id request = d \<longrightarrow>
                 (\<exists>r. queries_query_document qs request (run st (evs @ [BackgroundFinish srv elapsed d]))
                        = Inr r
                      \<and> sources r = [] \<and> related_images r = []))
            \<and> documents_query_document qs d request (run st (evs @ [BackgroundFinish srv elapsed d]))
                = Inl (HTTPException 400 ''Document is not processed yet''))"
proof -
  from reachable_inv [OF fresh, of st] have t: "task_inv (run st evs)" and r: "rag_inv (run st evs)"
    by simp_all
  have part1: "doc_id ` set (vectorstore rag) = dom (store rag)
            \<and> status_of (run st evs) d \<in> {Some COMPLETED, None}"
    if "rag_services (run st evs) d = Some rag"
    using rag_inv_Some [OF r that] by (auto simp: index_consistent_def)
  have part2: "status_of (run st (evs @ [BackgroundFinish srv elapsed d])) d = Some FAILED
            \<and> map_option error_message (document_store (run st (evs @ [BackgroundFinish srv elapsed d])) d)
                = Some (Some (str_exn e))
            \<and> rag_services (run st (evs @ [BackgroundFinish srv elapsed d])) d = None
            \<and> (QueryRequest.document_id request = d \<longrightarrow>
                 (\<exists>r. queries_query_document qs request (run st (evs @ [BackgroundFinish srv elapsed d]))
                        = Inr r
                      \<and> sources r = [] \<and> related_images r = []))
            \<and> documents_query_document qs d request (run st (evs @ [BackgroundFinish srv elapsed d]))
                = Inl (HTTPException 400 ''Document is not processed yet'')"
    if m: "map_of (running_tasks (run st evs)) d = Some fpath"
      and i: "ingest st srv d fpath = Inl e"
      and reg: "status_of (run st evs) d \<noteq> None"
  proof -
    from map_of_in_fst [OF m] have "d \<in> set (tasks (run st evs))" by (simp add: tasks_def)
    with t reg have proc: "status_of (run st evs) d = Some PROCESSING"
      by (auto simp: task_inv_def)
    from rag_inv_None [OF r reg] proc have norag: "rag_services (run st evs) d = None" by simp
    from reg obtain info where info: "document_store (run st evs) d = Some info"
      by (auto simp: status_of_def)
    have st': "status_of (run st (evs @ [BackgroundFinish srv elapsed d])) d = Some FAILED"
      using finish_task_obs(1) [OF m, of st srv elapsed d] i reg by simp
    have rs': "rag_services (run st (evs @ [BackgroundFinish srv elapsed d])) d = None"
      using finish_task_obs(3) [OF m, of st srv elapsed] i norag by simp
    have em: "map_option error_message (document_store (run st (evs @ [BackgroundFinish srv elapsed d])) d)
                = Some (Some (str_exn e))"
      using m i info
      by (simp add: finish_task_def background_finish_def background_except_def)
    from st' obtain info' where i': "document_store (run st (evs @ [BackgroundFinish srv elapsed d])) d = Some info'"
      and f': "doc_info.status info' = FAILED"
      by (auto simp: status_of_def)
    then have q1: "\<exists>r. queries_query_document qs request (run st (evs @ [BackgroundFinish srv elapsed d]))
                        = Inr r
                      \<and> sources r = [] \<and> related_images r = []"
      if "QueryRequest.document_id request = d"
      using that by (simp add: queries_query_document_def Let_def)
    have q2: "documents_query_document qs d request (run st (evs @ [BackgroundFinish srv elapsed d]))
                = Inl (HTTPException 400 ''Document is not processed yet'')"
      using i' f' by (simp add: documents_query_document_def)
    from st' em rs' q1 q2 show ?thesis by blast
  qed
  from part1 part2 show ?thesis by blast
qed

theorem index_consistent_and_partial_hidden_witness:
  "distinct (upload_ids [example_upload, Process ''doc-1'', BackgroundStart ''doc-1'',
      BackgroundFinish example_services 1 ''doc-1''])
   \<and> (\<exists>rag. rag_services (run settings [example_upload, Process ''doc-1'', BackgroundStart ''doc-1'',
              BackgroundFinish example_services 1 ''doc-1'']) ''doc-1'' = Some rag
          \<and> doc_id ` set (vectorstore rag) = dom (store rag))
   \<and> map_of (running_tasks (run settings [example_upload, Process ''doc-1'', BackgroundStart ''doc-1'']))
        ''doc-1'' = Some ''storage/uploads/doc-1_report.pdf''
   \<and> ingest settings (example_services\<lparr> add_documents_error := (\<lambda>n. if n = 1 then Some (Raised ''qdrant down'') else None) \<rparr>)
        ''doc-1'' ''storage/uploads/doc-1_report.pdf''
        = Inl (ProcessingError ''Vector database build failed: qdrant down'' ''doc-1'')
   \<and> status_of (run settings ([example_upload, Process ''doc-1'', BackgroundStart ''doc-1''] @
        [BackgroundFinish (example_services\<lparr> add_documents_error := (\<lambda>n. if n = 1 then Some (Raised ''qdrant down'') else None) \<rparr>)
           1 ''doc-1''])) ''doc-1'' = Some FAILED
   \<and> rag_services (run settings ([example_upload, Process ''doc-1'', BackgroundStart ''doc-1''] @
        [BackgroundFinish (example_services\<lparr> add_documents_error := (\<lambda>n. if n = 1 then Some (Raised ''qdrant down'') else None) \<rparr>)
           1 ''doc-1''])) ''doc-1'' = None
   \<and> (\<exists>r. queries_query_document \<lparr> retrieve_and_generate = (\<lambda>rag q k. Inl (Raised ''unused'')) \<rparr>
          \<lparr> QueryRequest.document_id = ''doc-1'', question = ''What is shown?'', max_results = None \<rparr>
          (run settings ([example_upload, Process ''doc-1'', BackgroundStart ''doc-1''] @
             [BackgroundFinish (example_services\<lparr> add_documents_error := (\<lambda>n. if n = 1 then Some (Raised ''qdrant down'') else None) \<rparr>)
                1 ''doc-1''])) = Inr r
        \<and> sources r = [] \<and> related_images r = [])"
proof -
  have d1: "distinct (upload_ids [example_upload, Process ''doc-1'', BackgroundStart ''doc-1'',
      BackgroundFinish example_services 1 ''doc-1''])"
    and d2: "distinct (upload_ids [example_upload, Process ''doc-1'', BackgroundStart ''doc-1''])"
    by (simp_all add: example_upload_def)
  obtain rag where rg: "rag_services (run settings [example_upload, Process ''doc-1'',
      BackgroundStart ''doc-1'', BackgroundFinish example_services 1 ''doc-1'']) ''doc-1'' = Some rag"
    by (simp add: model_defs str_nat.simps)
  from index_consistent_and_partial_hidden [OF d1, of settings "''doc-1''" rag] rg
  have w1: "doc_id ` set (vectorstore rag) = dom (store rag)"
    by blast
  have m: "map_of (running_tasks (run settings [example_upload, Process ''doc-1'', BackgroundStart ''doc-1'']))
        ''doc-1'' = Some ''storage/uploads/doc-1_report.pdf''"
    and reg: "status_of (run settings [example_upload, Process ''doc-1'', BackgroundStart ''doc-1''])
        ''doc-1'' \<noteq> None"
    by (simp_all add: model_defs)
  have i: "ingest settings (example_services\<lparr> add_documents_error := (\<lambda>n. if n = 1 then Some (Raised ''qdrant down'') else None) \<rparr>)
        ''doc-1'' ''storage/uploads/doc-1_report.pdf''
        = Inl (ProcessingError ''Vector database build failed: qdrant down'' ''doc-1'')"
    by (simp add: model_defs str_nat.simps)
  have rq: "QueryRequest.document_id
       \<lparr> QueryRequest.document_id = ''doc-1'', question = ''What is shown?'', max_results = None \<rparr>
     = ''doc-1''"
    by simp
  from index_consistent_and_partial_hidden [OF d2, of settings "''doc-1''" _
      "''storage/uploads/doc-1_report.pdf''"
      "example_services\<lparr> add_documents_error := (\<lambda>n. if n = 1 then Some (Raised ''qdrant down'') else None) \<rparr>"
      "ProcessingError ''Vector database build failed: qdrant down'' ''doc-1''" 1
      "\<lparr> QueryRequest.document_id = ''doc-1'', question = ''What is shown?'', max_results = None \<rparr>"
      "\<lparr> retrieve_and_generate = (\<lambda>rag q k. Inl (Raised ''unused'')) \<rparr>"]
    m i reg rq
  have w2: "status_of (run settings ([example_upload, Process ''doc-1'', BackgroundStart ''doc-1''] @
        [BackgroundFinish (example_services\<lparr> add_documents_error := (\<lambda>n. if n = 1 then Some (Raised ''qdrant down'') else None) \<rparr>)
           1 ''doc-1''])) ''doc-1'' = Some FAILED"
    and w3: "rag_services (run settings ([example_upload, Process ''doc-1'', BackgroundStart ''doc-1''] @
        [BackgroundFinish (example_services\<lparr> add_documents_error := (\<lambda>n. if n = 1 then Some (Raised ''qdrant down'') else None) \<rparr>)
           1 ''doc-1''])) ''doc-1'' = None"
    and w4: "\<exists>r. queries_query_document \<lparr> retrieve_and_generate = (\<lambda>rag q k. Inl (Raised ''unused'')) \<rparr>
          \<lparr> QueryRequest.document_id = ''doc-1'', question = ''What is shown?'', max_results = None \<rparr>
          (run settings ([example_upload, Process ''doc-1'', BackgroundStart ''doc-1''] @
             [BackgroundFinish (example_services\<lparr> add_documents_error := (\<lambda>n. if n = 1 then Some (Raised ''qdrant down'') else None) \<rparr>)
                1 ''doc-1''])) = Inr r
        \<and> sources r = [] \<and> related_images r = []"
    by blast+
  have first: "\<exists>rag. rag_services (run settings [example_upload, Process ''doc-1'', BackgroundStart ''doc-1'',
              BackgroundFinish example_services 1 ''doc-1'']) ''doc-1'' = Some rag
          \<and> doc_id ` set (vectorstore rag) = dom (store rag)"
    using rg w1 by blast
  show ?thesis
    by (intro conjI) (rule d1 first m i w2 w3 w4)+
qed

end
